theory Spec2Isabelle
  imports Complex_Main "HOL-Library.Sublist" "HOL-Library.Char_ord" "HOL-Library.List_Lexorder"
    "HOL-Library.Log_Nat" "HOL-Library.Multiset" "HOL-Library.Option_ord"
    "HOL-Library.Product_Lexorder"
begin

section \<open>Strings of the script\<close>

text \<open>
  A JavaScript string is a sequence of code units. The model works over the code units
  U+0000 .. U+00FF, which are the values of \<^typ>\<open>char\<close>; on this alphabet the
  built-ins \<^verbatim>\<open>trim\<close>, \<^verbatim>\<open>toLowerCase\<close> and
  \<^verbatim>\<open>includes\<close> are given exactly as ECMAScript defines them.
\<close>

definition is_space :: "char \<Rightarrow> bool" where
  \<comment> \<open>WhiteSpace and LineTerminator below U+0100: TAB, LF, VT, FF, CR, SP, NBSP;
      the same set is matched by \<^verbatim>\<open>\s\<close> in a regular expression\<close>
  "is_space c \<longleftrightarrow> (of_char c :: nat) \<in> {9, 10, 11, 12, 13, 32, 160}"

definition trim :: "string \<Rightarrow> string" where
  "trim s = rev (dropWhile is_space (rev (dropWhile is_space s)))"

definition lower_char :: "char \<Rightarrow> char" where
  \<comment> \<open>A..Z and the capital letters U+00C0 .. U+00DE (the multiplication sign U+00D7
      is not a letter) move up by 32; every other code unit is its own lower case\<close>
  "lower_char c =
     (let n = (of_char c :: nat)
      in if (65 \<le> n \<and> n \<le> 90) \<or> (192 \<le> n \<and> n \<le> 222 \<and> n \<noteq> 215)
         then char_of (n + 32) else c)"

definition toLowerCase :: "string \<Rightarrow> string" where
  "toLowerCase s = map lower_char s"

fun str_includes :: "string \<Rightarrow> string \<Rightarrow> bool" where
  \<comment> \<open>\<^verbatim>\<open>text.includes(q)\<close>: \<open>q\<close> starts at some position of \<open>text\<close>\<close>
  "str_includes [] q = (q = [])"
| "str_includes (c # cs) q = (prefix q (c # cs) \<or> str_includes cs q)"

section \<open>Rows and the view\<close>

text \<open>
  A \<open>node\<close> is any object with a \<^verbatim>\<open>textContent\<close> property: a table cell,
  or the literal \<^verbatim>\<open>{ textContent: '' }\<close>. An element (a list item, a table row)
  has in addition its cells and its inline display style. Elements are objects: the store
  \<open>elems\<close> maps the identity of an element to its current state, and both the captured
  \<^verbatim>\<open>items\<close> array of a filter and the child sequence of a table body hold
  identities. The attributes \<^verbatim>\<open>data-sort-col\<close> and
  \<^verbatim>\<open>data-sort-dir\<close> of the table are \<open>None\<close> while absent.
\<close>

record node =
  textContent :: string

record element = node +
  cells :: "node list"
  display :: string

record view =
  elems :: "nat \<Rightarrow> element"
  tbody_rows :: "nat list"
  data_sort_col :: "string option"
  data_sort_dir :: "string option"

section \<open>Simple search / filter\<close>

definition filter_item :: "string \<Rightarrow> element \<Rightarrow> element" where
  \<comment> \<open>the body of \<^verbatim>\<open>items.forEach(it => ...)\<close>\<close>
  "filter_item q it =
     (let text = toLowerCase (trim (textContent it))
      in it\<lparr>display := (if q = [] \<or> str_includes text q then [] else ''none'')\<rparr>)"

definition filter_input :: "nat list \<Rightarrow> string \<Rightarrow> view \<Rightarrow> view" where
  \<comment> \<open>the \<^verbatim>\<open>input\<close> listener; \<open>items\<close> was captured at initialization,
      \<open>val\<close> is \<^verbatim>\<open>input.value\<close>\<close>
  "filter_input items val v =
     (let q = toLowerCase (trim val)
      in v\<lparr>elems := foldl (\<lambda>s it. s(it := filter_item q (s it))) (elems v) items\<rparr>)"

definition filter_register :: "nat list option \<Rightarrow> (string \<Rightarrow> view \<Rightarrow> view) option" where
  \<comment> \<open>\<^verbatim>\<open>document.querySelector(input.dataset.filterTarget)\<close> gives the target
      (here: its children) or null; without a target no listener is added\<close>
  "filter_register target =
     (case target of None \<Rightarrow> None | Some children \<Rightarrow> Some (filter_input children))"

definition visible :: "view \<Rightarrow> nat \<Rightarrow> bool" where
  "visible v r \<longleftrightarrow> display (elems v r) \<noteq> ''none''"

section \<open>Numbers\<close>

text \<open>
  A JavaScript Number is NaN, an infinity or a finite binary64 value, held here as the
  rational it denotes (the two zeros are one value: \<^verbatim>\<open>-0 === 0\<close>, and no operation of
  the script tells them apart). \<open>to_binary64\<close> is the Number value of a non-negative real:
  round to nearest, ties to even, with 53 bits of precision, gradual underflow below
  \<open>2 powi (- 1022)\<close> and overflow to infinity from \<open>2 ^ 1024\<close> on.
\<close>

datatype number = NaN | NegInfinity | Finite rat | PosInfinity

definition round_half_even :: "rat \<Rightarrow> int" where
  "round_half_even q =
     (let f = \<lfloor>q\<rfloor>; d = q - of_int f
      in if d < 1 / 2 then f else if 1 / 2 < d then f + 1 else if even f then f else f + 1)"

definition floor_log2 :: "rat \<Rightarrow> int" where
  \<comment> \<open>for \<open>0 < q\<close>: the \<open>d\<close> with \<open>2 powi d \<le> q < 2 powi (d + 1)\<close>\<close>
  "floor_log2 q =
     (let (a, b) = quotient_of q; d = bitlen a - bitlen b
      in if 2 powi d \<le> q then d else d - 1)"

definition binary64_overflow :: rat where
  "binary64_overflow = 2 ^ 1024"

definition to_binary64 :: "rat \<Rightarrow> number" where
  "to_binary64 q =
     (if q = 0 then Finite 0
      else let e = max (floor_log2 q - 52) (- 1074);
               m = round_half_even (q / 2 powi e);
               r = of_int m * 2 powi e
           in if binary64_overflow \<le> r then PosInfinity else Finite r)"

fun negate :: "number \<Rightarrow> number" where
  "negate NaN = NaN"
| "negate NegInfinity = PosInfinity"
| "negate PosInfinity = NegInfinity"
| "negate (Finite q) = Finite (- q)"

definition isFinite :: "number \<Rightarrow> bool" where
  \<comment> \<open>\<^verbatim>\<open>Number.isFinite\<close>\<close>
  "isFinite v = (case v of Finite q \<Rightarrow> True | _ \<Rightarrow> False)"

definition is_digit :: "char \<Rightarrow> bool" where
  "is_digit c \<longleftrightarrow> 48 \<le> (of_char c :: nat) \<and> (of_char c :: nat) \<le> 57"

definition digits_value :: "string \<Rightarrow> int" where
  "digits_value ds = foldl (\<lambda>n c. 10 * n + (of_char c - 48)) 0 ds"

definition signed_integer :: "string \<Rightarrow> int option" where
  \<comment> \<open>the SignedInteger at the head of \<open>s\<close>, if there is one\<close>
  "signed_integer s =
     (let neg = (s \<noteq> [] \<and> hd s = CHR ''-'');
          r = (if s \<noteq> [] \<and> (hd s = CHR ''+'' \<or> hd s = CHR ''-'') then tl s else s);
          ds = takeWhile is_digit r
      in if ds = [] then None
         else Some (if neg then - digits_value ds else digits_value ds))"

definition exponent_part :: "string \<Rightarrow> int" where
  \<comment> \<open>the value of the ExponentPart at the head of \<open>s\<close>; 0 when \<open>s\<close> does not start
      with one (the literal then ends before \<open>s\<close>)\<close>
  "exponent_part s =
     (if s \<noteq> [] \<and> (hd s = CHR ''e'' \<or> hd s = CHR ''E'')
      then (case signed_integer (tl s) of None \<Rightarrow> 0 | Some n \<Rightarrow> n) else 0)"

definition unsigned_literal :: "string \<Rightarrow> number" where
  \<comment> \<open>the longest prefix of \<open>s\<close> that is a StrUnsignedDecimalLiteral:
      \<^verbatim>\<open>Infinity\<close>, or digits with an optional fraction and exponent\<close>
  "unsigned_literal s =
     (if prefix ''Infinity'' s then PosInfinity
      else let ip = takeWhile is_digit s; r1 = dropWhile is_digit s;
               dot = (r1 \<noteq> [] \<and> hd r1 = CHR ''.'');
               fp = (if dot then takeWhile is_digit (tl r1) else []);
               r2 = (if dot then dropWhile is_digit (tl r1) else r1)
           in if ip = [] \<and> fp = [] then NaN
              else to_binary64 (of_int (digits_value (ip @ fp))
                     * 10 powi (exponent_part r2 - int (length fp))))"

definition parseFloat :: "string \<Rightarrow> number" where
  \<comment> \<open>leading white space is skipped, then the longest prefix that is a
      StrDecimalLiteral is read; NaN when there is none\<close>
  "parseFloat s =
     (let t = dropWhile is_space s
      in if t \<noteq> [] \<and> hd t = CHR ''-'' then negate (unsigned_literal (tl t))
         else if t \<noteq> [] \<and> hd t = CHR ''+'' then unsigned_literal (tl t)
         else unsigned_literal t)"

definition parseInt10 :: "string \<Rightarrow> number" where
  \<comment> \<open>\<^verbatim>\<open>parseInt(s, 10)\<close>: white space, a sign, then the decimal digits\<close>
  "parseInt10 s =
     (let t = dropWhile is_space s;
          neg = (t \<noteq> [] \<and> hd t = CHR ''-'');
          r = (if t \<noteq> [] \<and> (hd t = CHR ''+'' \<or> hd t = CHR ''-'') then tl t else t);
          ds = takeWhile is_digit r
      in if ds = [] then NaN
         else if neg then negate (to_binary64 (of_int (digits_value ds)))
         else to_binary64 (of_int (digits_value ds)))"

fun nat_digits :: "nat \<Rightarrow> string" where
  "nat_digits n =
     (if n < 10 then [char_of (48 + n)] else nat_digits (n div 10) @ [char_of (48 + n mod 10)])"

definition String_number :: "number \<Rightarrow> string" where
  \<comment> \<open>\<^verbatim>\<open>String(index)\<close> for the values \<open>parseInt10\<close> returns: NaN, the infinities
      and integers, which print in decimal below \<open>10 ^ 21\<close> (beyond that JavaScript prints
      an exponent; the model keeps the decimal digits)\<close>
  "String_number v =
     (case v of
        NaN \<Rightarrow> ''NaN''
      | PosInfinity \<Rightarrow> ''Infinity''
      | NegInfinity \<Rightarrow> ''-Infinity''
      | Finite q \<Rightarrow> (if q < 0 then ''-'' else []) @ nat_digits (nat \<bar>\<lfloor>q\<rfloor>\<bar>))"

section \<open>Table sorting\<close>

datatype error = TypeError | SyntaxError | NotAllowedError

datatype jsvalue = Num number | Str string

definition strip_number_chars :: "string \<Rightarrow> string" where
  \<comment> \<open>\<^verbatim>\<open>txt.replace(/[,$\s%]/g, '')\<close>\<close>
  "strip_number_chars txt =
     filter (\<lambda>c. \<not> (c = CHR '','' \<or> c = CHR ''$'' \<or> is_space c \<or> c = CHR ''%'')) txt"

definition parseCellValue :: "node option \<Rightarrow> string \<Rightarrow> error + jsvalue" where
  \<comment> \<open>\<open>None\<close> is \<^verbatim>\<open>undefined\<close>, on which reading
      \<^verbatim>\<open>textContent\<close> throws a TypeError\<close>
  "parseCellValue cell type =
     (case cell of
        None \<Rightarrow> Inl TypeError
      | Some c \<Rightarrow>
          (let txt = trim (textContent c)
           in if type = ''number''
              then (let n = strip_number_chars txt; v = parseFloat n
                    in Inr (Num (if isFinite v then v else NegInfinity)))
              else Inr (Str (toLowerCase txt))))"

fun number_gt :: "number \<Rightarrow> number \<Rightarrow> bool" where
  \<comment> \<open>\<^verbatim>\<open>x > y\<close> on Numbers; false when either is NaN\<close>
  "number_gt NaN y = False"
| "number_gt x NaN = False"
| "number_gt NegInfinity y = False"
| "number_gt x NegInfinity = True"
| "number_gt PosInfinity y = (y \<noteq> PosInfinity)"
| "number_gt (Finite x) PosInfinity = False"
| "number_gt (Finite x) (Finite y) = (y < x)"

fun strict_equals :: "jsvalue \<Rightarrow> jsvalue \<Rightarrow> bool" where
  \<comment> \<open>\<^verbatim>\<open>va === vb\<close>\<close>
  "strict_equals (Num x) (Num y) = (x = y \<and> x \<noteq> NaN)"
| "strict_equals (Str x) (Str y) = (x = y)"
| "strict_equals _ _ = False"

fun greater_than :: "jsvalue \<Rightarrow> jsvalue \<Rightarrow> bool" where
  \<comment> \<open>\<^verbatim>\<open>va > vb\<close>: numeric on Numbers, by code units on strings. Both operands
      of the comparator come from \<open>parseCellValue\<close> with one \<open>type\<close>, so a Number never
      meets a string there\<close>
  "greater_than (Num x) (Num y) = number_gt x y"
| "greater_than (Str x) (Str y) = (y < x)"
| "greater_than _ _ = False"

definition cell_at :: "element \<Rightarrow> number \<Rightarrow> node option" where
  \<comment> \<open>\<^verbatim>\<open>a.cells[index]\<close>: the cell when \<open>index\<close> is an integer within the
      collection, \<^verbatim>\<open>undefined\<close> otherwise\<close>
  "cell_at a index =
     (case index of
        Finite q \<Rightarrow>
          if of_int \<lfloor>q\<rfloor> = q \<and> 0 \<le> q \<and> nat \<lfloor>q\<rfloor> < length (cells a)
          then Some (cells a ! nat \<lfloor>q\<rfloor>) else None
      | _ \<Rightarrow> None)"

definition or_else :: "node option \<Rightarrow> node \<Rightarrow> node option" where
  \<comment> \<open>\<^verbatim>\<open>x || y\<close> with an object \<open>y\<close>: never \<^verbatim>\<open>undefined\<close>\<close>
  "or_else x y = (case x of None \<Rightarrow> Some y | Some c \<Rightarrow> Some c)"

definition compare_rows ::
  "(nat \<Rightarrow> element) \<Rightarrow> number \<Rightarrow> string \<Rightarrow> int \<Rightarrow> nat \<Rightarrow> nat \<Rightarrow> error + int" where
  \<comment> \<open>the comparator handed to \<^verbatim>\<open>rows.sort\<close>\<close>
  "compare_rows st index type dir a b =
     (case parseCellValue (or_else (cell_at (st a) index) \<lparr>textContent = []\<rparr>) type of
        Inl e \<Rightarrow> Inl e
      | Inr va \<Rightarrow>
          (case parseCellValue (or_else (cell_at (st b) index) \<lparr>textContent = []\<rparr>) type of
             Inl e \<Rightarrow> Inl e
           | Inr vb \<Rightarrow>
               Inr (if strict_equals va vb then 0
                    else if greater_than va vb then dir else - dir)))"

text \<open>
  \<^verbatim>\<open>Array.prototype.sort\<close> is stable, and with a consistent comparator its result is
  the one stable arrangement in comparator order, whatever algorithm the engine runs
  (\<open>sort_le_unique\<close> below). The model is the stable insertion sort; an exception of the
  comparator leaves the sort.
\<close>

fun insort_by :: "('a \<Rightarrow> 'a \<Rightarrow> error + int) \<Rightarrow> 'a \<Rightarrow> 'a list \<Rightarrow> error + 'a list" where
  "insort_by c x [] = Inr [x]"
| "insort_by c x (y # ys) =
     (case c x y of
        Inl e \<Rightarrow> Inl e
      | Inr n \<Rightarrow>
          if n \<le> 0 then Inr (x # y # ys)
          else (case insort_by c x ys of Inl e \<Rightarrow> Inl e | Inr zs \<Rightarrow> Inr (y # zs)))"

fun array_sort :: "('a \<Rightarrow> 'a \<Rightarrow> error + int) \<Rightarrow> 'a list \<Rightarrow> error + 'a list" where
  "array_sort c [] = Inr []"
| "array_sort c (x # xs) =
     (case array_sort c xs of Inl e \<Rightarrow> Inl e | Inr ys \<Rightarrow> insort_by c x ys)"

definition appendChild :: "nat \<Rightarrow> nat list \<Rightarrow> nat list" where
  \<comment> \<open>a node that is already a child is moved to the end\<close>
  "appendChild r children = filter (\<lambda>x. x \<noteq> r) children @ [r]"

definition makeSortHandler :: "number \<Rightarrow> string \<Rightarrow> view \<Rightarrow> error + view" where
  "makeSortHandler index type v =
     (let rows = tbody_rows v;
          currentAsc = (data_sort_col v = Some (String_number index)
                        \<and> data_sort_dir v = Some ''asc'');
          dir = (if currentAsc then - 1 else 1)
      in case array_sort (compare_rows (elems v) index type dir) rows of
           Inl e \<Rightarrow> Inl e
         | Inr ordered \<Rightarrow>
             Inr (v\<lparr>tbody_rows := foldl (\<lambda>children r. appendChild r children) (tbody_rows v) ordered,
                    data_sort_col := Some (String_number index),
                    data_sort_dir := Some (if dir = 1 then ''asc'' else ''desc'')\<rparr>))"

text \<open>
  Wiring: a header cell \<^verbatim>\<open>th[data-sort]\<close> carries its two data attributes, its
  cursor style and its click listeners, each the closure \<open>makeSortHandler idx type\<close>
  kept as the pair \<open>(idx, type)\<close>.
\<close>

record th =
  data_sort :: string
  data_type :: "string option"
  cursor :: string
  listeners :: "(number \<times> string) list"

definition wire_header :: "th \<Rightarrow> th" where
  "wire_header h =
     (let idx = parseInt10 (data_sort h);
          type = (case data_type h of None \<Rightarrow> ''string''
                  | Some t \<Rightarrow> if t = [] then ''string'' else t)
      in h\<lparr>cursor := ''pointer'', listeners := listeners h @ [(idx, type)]\<rparr>)"

definition sortable_setup :: "bool \<Rightarrow> th list \<Rightarrow> th list" where
  \<comment> \<open>the body of \<^verbatim>\<open>$$('table.sortable').forEach\<close>; \<open>has_tbody\<close> tells whether
      \<^verbatim>\<open>table.tBodies[0]\<close> exists\<close>
  "sortable_setup has_tbody headers = (if \<not> has_tbody then headers else map wire_header headers)"

fun run_listeners :: "(number \<times> string) list \<Rightarrow> view \<Rightarrow> error + view" where
  \<comment> \<open>the handlers run one after the other, as the listeners of one click or as the
      handlers of successive clicks\<close>
  "run_listeners [] v = Inr v"
| "run_listeners ((idx, type) # ls) v =
     (case makeSortHandler idx type v of Inl e \<Rightarrow> Inl e | Inr v' \<Rightarrow> run_listeners ls v')"

definition th_click :: "th \<Rightarrow> view \<Rightarrow> error + view" where
  "th_click h v = run_listeners (listeners h) v"

section \<open>Modal utilities\<close>

text \<open>
  A modal is known by its class list and its \<^verbatim>\<open>aria-hidden\<close> attribute
  (\<open>None\<close> while absent). A class list is a list without repetition: \<open>add\<close> appends a
  token that is not there, \<open>remove\<close> deletes it. A selector look-up of the document
  yields an element, null (\<open>None\<close>), or throws on a selector that is not valid.
\<close>

record modal =
  classList :: "string list"
  aria_hidden :: "string option"

definition classList_add :: "string \<Rightarrow> string list \<Rightarrow> string list" where
  "classList_add t cl = (if t \<in> set cl then cl else cl @ [t])"

definition classList_remove :: "string \<Rightarrow> string list \<Rightarrow> string list" where
  "classList_remove t cl = filter (\<lambda>x. x \<noteq> t) cl"

definition modal_open_click :: "error + nat option \<Rightarrow> (nat \<Rightarrow> modal) \<Rightarrow> error + (nat \<Rightarrow> modal)" where
  \<comment> \<open>\<open>found\<close> is the outcome of \<^verbatim>\<open>document.querySelector(sel)\<close>\<close>
  "modal_open_click found st =
     (case found of
        Inl e \<Rightarrow> Inl e
      | Inr None \<Rightarrow> Inr st
      | Inr (Some m) \<Rightarrow>
          Inr (st(m := (st m)\<lparr>classList := classList_remove ''hidden'' (classList (st m)),
                               aria_hidden := Some ''false''\<rparr>)))"

definition modal_close_click ::
  "nat option \<Rightarrow> string option \<Rightarrow> (string \<Rightarrow> error + nat option) \<Rightarrow> (nat \<Rightarrow> modal)
     \<Rightarrow> error + (nat \<Rightarrow> modal)" where
  \<comment> \<open>\<open>closest\<close> is \<^verbatim>\<open>btn.closest('.modal')\<close>, \<open>modalClose\<close> is
      \<^verbatim>\<open>btn.dataset.modalClose\<close> and \<open>querySelector\<close> the look-up of the document,
      consulted only when there is no enclosing modal\<close>
  "modal_close_click closest modalClose querySelector st =
     (case (case closest of
              Some m \<Rightarrow> Inr (Some m)
            | None \<Rightarrow> querySelector (case modalClose of None \<Rightarrow> [] | Some s \<Rightarrow> s)) of
        Inl e \<Rightarrow> Inl e
      | Inr None \<Rightarrow> Inr st
      | Inr (Some m) \<Rightarrow>
          Inr (st(m := (st m)\<lparr>classList := classList_add ''hidden'' (classList (st m)),
                               aria_hidden := Some ''true''\<rparr>)))"

definition modal_overlay_click :: "nat \<Rightarrow> nat \<Rightarrow> (nat \<Rightarrow> modal) \<Rightarrow> (nat \<Rightarrow> modal)" where
  \<comment> \<open>the click listener of the modal \<open>m\<close>, for an event whose target is \<open>target\<close>\<close>
  "modal_overlay_click m target st =
     (if target = m \<and> ''modal'' \<in> set (classList (st m))
      then st(m := (st m)\<lparr>classList := classList_add ''hidden'' (classList (st m))\<rparr>)
      else st)"

definition keydown :: "string \<Rightarrow> nat list \<Rightarrow> (nat \<Rightarrow> modal) \<Rightarrow> (nat \<Rightarrow> modal)" where
  \<comment> \<open>\<open>doc\<close> lists the elements of the document;
      \<^verbatim>\<open>$$('.modal:not(.hidden)')\<close> selects among them\<close>
  "keydown key doc st =
     (if key = ''Escape''
      then foldl (\<lambda>s m. s(m := (s m)\<lparr>classList := classList_add ''hidden'' (classList (s m))\<rparr>))
             st
             (filter (\<lambda>m. ''modal'' \<in> set (classList (st m))
                          \<and> ''hidden'' \<notin> set (classList (st m))) doc)
      else st)"

section \<open>Copy to clipboard\<close>

text \<open>
  A promise is pending, fulfilled with a value or rejected with an error.
  \<^verbatim>\<open>navigator.clipboard\<close> may be undefined (\<open>None\<close>); its
  \<^verbatim>\<open>writeText\<close> throws or returns a promise. \<open>copyText\<close> gives the state the
  promise of the async helper reaches.
\<close>

datatype 'a promise = Pending | Fulfilled 'a | Rejected error

definition copyText :: "(string \<Rightarrow> error + unit promise) option \<Rightarrow> string \<Rightarrow> bool promise" where
  "copyText clipboard text =
     (case clipboard of
        None \<Rightarrow> Fulfilled False
      | Some writeText \<Rightarrow>
          (case writeText text of
             Inl e \<Rightarrow> Fulfilled False
           | Inr Pending \<Rightarrow> Pending
           | Inr (Fulfilled u) \<Rightarrow> Fulfilled True
           | Inr (Rejected e) \<Rightarrow> Fulfilled False))"

section \<open>JSON\<close>

text \<open>
  \<^verbatim>\<open>JSON.parse\<close> as a recursive-descent reader of the JSON grammar. The value is
  kept as a syntax tree, a string as the text between its quotes: the script only asks
  whether the value is truthy and hands it on to the charting library. The first argument
  of the three mutually recursive readers is fuel; \<open>JSON_parse\<close> supplies
  \<open>2 * length s + 2\<close>, beyond which more fuel changes nothing (\<open>json_value_fuel\<close>).
\<close>

datatype json =
    JNull | JBool bool | JNumber number | JString string
  | JArray "json list" | JObject "(string \<times> json) list"

definition json_ws :: "char \<Rightarrow> bool" where
  "json_ws c \<longleftrightarrow> (of_char c :: nat) \<in> {9, 10, 13, 32}"

definition is_hex :: "char \<Rightarrow> bool" where
  "is_hex c \<longleftrightarrow> is_digit c \<or> c \<in> set ''abcdefABCDEF''"

fun json_string :: "string \<Rightarrow> (string \<times> string) option" where
  "json_string [] = None"
| "json_string (c # cs) =
     (if c = CHR 0x22 then Some ([], cs)
      else if c = CHR 0x5C then
        (case cs of
           [] \<Rightarrow> None
         | e # r \<Rightarrow>
             if e \<in> {CHR 0x22, CHR 0x5C, CHR ''/'', CHR ''b'', CHR ''f'', CHR ''n'', CHR ''r'', CHR ''t''}
             then map_option (\<lambda>(s, t). (c # e # s, t)) (json_string r)
             else if e = CHR ''u'' then
               (case r of
                  h1 # h2 # h3 # h4 # r' \<Rightarrow>
                    if is_hex h1 \<and> is_hex h2 \<and> is_hex h3 \<and> is_hex h4
                    then map_option (\<lambda>(s, t). (c # e # h1 # h2 # h3 # h4 # s, t)) (json_string r')
                    else None
                | _ \<Rightarrow> None)
             else None)
      else if (of_char c :: nat) < 32 then None
      else map_option (\<lambda>(s, t). (c # s, t)) (json_string cs))"

definition json_fraction :: "string \<Rightarrow> (string \<times> string) option" where
  \<comment> \<open>an optional fraction: its digits and the rest\<close>
  "json_fraction s =
     (case s of
        [] \<Rightarrow> Some ([], s)
      | c # cs \<Rightarrow>
          if c = CHR ''.''
          then (if takeWhile is_digit cs = [] then None
                else Some (takeWhile is_digit cs, dropWhile is_digit cs))
          else Some ([], s))"

definition json_exponent :: "string \<Rightarrow> (int \<times> string) option" where
  \<comment> \<open>an optional exponent: its value and the rest\<close>
  "json_exponent s =
     (case s of
        [] \<Rightarrow> Some (0, s)
      | c # cs \<Rightarrow>
          if c = CHR ''e'' \<or> c = CHR ''E''
          then (let neg = (cs \<noteq> [] \<and> hd cs = CHR ''-'');
                    ds = (if cs \<noteq> [] \<and> (hd cs = CHR ''+'' \<or> hd cs = CHR ''-'') then tl cs else cs)
                in if takeWhile is_digit ds = [] then None
                   else Some (if neg then - digits_value (takeWhile is_digit ds)
                              else digits_value (takeWhile is_digit ds),
                              dropWhile is_digit ds))
          else Some (0, s))"

definition json_number :: "string \<Rightarrow> (json \<times> string) option" where
  \<comment> \<open>an optional minus sign, the integer digits (no leading zero), then the optional
      fraction and exponent\<close>
  "json_number s =
     (let neg = (s \<noteq> [] \<and> hd s = CHR ''-'');
          s1 = (if neg then tl s else s);
          ip = takeWhile is_digit s1
      in if ip = [] \<or> (hd ip = CHR ''0'' \<and> length ip > 1) then None
         else (case json_fraction (dropWhile is_digit s1) of
                 None \<Rightarrow> None
               | Some (fp, r2) \<Rightarrow>
                   (case json_exponent r2 of
                      None \<Rightarrow> None
                    | Some (e, r3) \<Rightarrow>
                        (let v = to_binary64 (of_int (digits_value (ip @ fp))
                                   * 10 powi (e - int (length fp)))
                         in Some (JNumber (if neg then negate v else v), r3)))))"

definition json_scalar :: "string \<Rightarrow> (json \<times> string) option" where
  \<comment> \<open>a string, a number or one of the three literal names\<close>
  "json_scalar s =
     (case s of
        [] \<Rightarrow> None
      | c # cs \<Rightarrow>
          if c = CHR 0x22 then map_option (\<lambda>(x, t). (JString x, t)) (json_string cs)
          else if c = CHR ''-'' \<or> is_digit c then json_number s
          else if prefix ''true'' s then Some (JBool True, drop 4 s)
          else if prefix ''false'' s then Some (JBool False, drop 5 s)
          else if prefix ''null'' s then Some (JNull, drop 4 s)
          else None)"

fun json_value :: "nat \<Rightarrow> string \<Rightarrow> (json \<times> string) option"
  and json_elements :: "nat \<Rightarrow> string \<Rightarrow> (json list \<times> string) option"
  and json_members :: "nat \<Rightarrow> string \<Rightarrow> ((string \<times> json) list \<times> string) option" where
  "json_value 0 s = None"
| "json_value (Suc n) s =
     (case dropWhile json_ws s of
        [] \<Rightarrow> None
      | c # cs \<Rightarrow>
          if c = CHR ''{'' then
            (case dropWhile json_ws cs of
               [] \<Rightarrow> None
             | d # ds \<Rightarrow> if d = CHR ''}'' then Some (JObject [], ds)
                         else map_option (\<lambda>(ms, t). (JObject ms, t)) (json_members n (d # ds)))
          else if c = CHR ''['' then
            (case dropWhile json_ws cs of
               [] \<Rightarrow> None
             | d # ds \<Rightarrow> if d = CHR '']'' then Some (JArray [], ds)
                         else map_option (\<lambda>(vs, t). (JArray vs, t)) (json_elements n (d # ds)))
          else json_scalar (c # cs))"
| "json_elements 0 s = None"
| "json_elements (Suc n) s =
     (case json_value n s of
        None \<Rightarrow> None
      | Some (v, t) \<Rightarrow>
          (case dropWhile json_ws t of
             [] \<Rightarrow> None
           | c # cs \<Rightarrow>
               if c = CHR '','' then map_option (\<lambda>(vs, u). (v # vs, u)) (json_elements n cs)
               else if c = CHR '']'' then Some ([v], cs)
               else None))"
| "json_members 0 s = None"
| "json_members (Suc n) s =
     (case dropWhile json_ws s of
        [] \<Rightarrow> None
      | q # s1 \<Rightarrow>
          if q \<noteq> CHR 0x22 then None
          else (case json_string s1 of
                  None \<Rightarrow> None
                | Some (k, s2) \<Rightarrow>
                    (case dropWhile json_ws s2 of
                       [] \<Rightarrow> None
                     | col # s3 \<Rightarrow>
                         if col \<noteq> CHR '':'' then None
                         else (case json_value n s3 of
                                 None \<Rightarrow> None
                               | Some (v, s4) \<Rightarrow>
                                   (case dropWhile json_ws s4 of
                                      [] \<Rightarrow> None
                                    | c # cs \<Rightarrow>
                                        if c = CHR '','' then
                                          map_option (\<lambda>(ms, u). ((k, v) # ms, u)) (json_members n cs)
                                        else if c = CHR ''}'' then Some ([(k, v)], cs)
                                        else None)))))"

definition JSON_parse :: "string \<Rightarrow> error + json" where
  "JSON_parse s =
     (case json_value (2 * length s + 2) s of
        None \<Rightarrow> Inl SyntaxError
      | Some (v, t) \<Rightarrow> if dropWhile json_ws t = [] then Inr v else Inl SyntaxError)"

definition truthy :: "json \<Rightarrow> bool" where
  "truthy v =
     (case v of
        JNull \<Rightarrow> False
      | JBool b \<Rightarrow> b
      | JNumber x \<Rightarrow> x \<noteq> Finite 0 \<and> x \<noteq> NaN
      | JString x \<Rightarrow> x \<noteq> []
      | _ \<Rightarrow> True)"

section \<open>Chart mounting\<close>

text \<open>
  A canvas is known by its \<^verbatim>\<open>data-chart-config\<close> attribute and its class list.
  The page state holds the canvases, the charts constructed so far (each
  \<^verbatim>\<open>new Chart(canvas.getContext('2d'), cfg)\<close> as the pair of the canvas and the
  configuration) and the console messages.
\<close>

record canvas =
  chart_config :: "string option"
  canvas_classes :: "string list"

datatype message = Info_chart_missing | Warn_parse_failed nat

record charts =
  canvas_of :: "nat \<Rightarrow> canvas"
  constructed :: "(nat \<times> json) list"
  console :: "message list"

definition default_cfg :: json where
  "default_cfg =
     JObject
       [(''type'', JString ''line''),
        (''data'', JObject
           [(''labels'', JArray [JString ''Jan'', JString ''Feb'', JString ''Mar'',
                                 JString ''Apr'', JString ''May'', JString ''Jun'']),
            (''datasets'', JArray
               [JObject [(''label'', JString ''Example''),
                         (''data'', JArray [JNumber (Finite 3), JNumber (Finite 2),
                                            JNumber (Finite 5), JNumber (Finite 4),
                                            JNumber (Finite 6), JNumber (Finite 7)]),
                         (''fill'', JBool False)]])]),
        (''options'', JObject [(''responsive'', JBool True),
                               (''maintainAspectRatio'', JBool False)])]"

definition read_config :: "(string \<Rightarrow> error + string option) \<Rightarrow> string option \<Rightarrow> error + json option" where
  \<comment> \<open>the body of the \<^verbatim>\<open>try\<close>: the new value of \<^verbatim>\<open>cfg\<close>
      (\<open>None\<close> is null), or the exception thrown. \<open>querySelector\<close> gives the text
      content of the element a selector finds\<close>
  "read_config querySelector cfgAttr =
     (case cfgAttr of
        None \<Rightarrow> Inr None
      | Some a \<Rightarrow>
          if a = [] then Inr None
          else if prefix ''{'' (trim a)
          then (case JSON_parse a of Inl e \<Rightarrow> Inl e | Inr v \<Rightarrow> Inr (Some v))
          else (case querySelector a of
                  Inl e \<Rightarrow> Inl e
                | Inr None \<Rightarrow> Inr None
                | Inr (Some txt) \<Rightarrow>
                    (case JSON_parse txt of Inl e \<Rightarrow> Inl e | Inr v \<Rightarrow> Inr (Some v))))"

definition mount_canvas :: "(string \<Rightarrow> error + string option) \<Rightarrow> charts \<Rightarrow> nat \<Rightarrow> charts" where
  \<comment> \<open>the body of \<^verbatim>\<open>canvases.forEach(canvas => ...)\<close>\<close>
  "mount_canvas querySelector st c =
     (let r = read_config querySelector (chart_config (canvas_of st c));
          cfg = (case r of Inl e \<Rightarrow> None | Inr x \<Rightarrow> x);
          st1 = (case r of Inl e \<Rightarrow> st\<lparr>console := console st @ [Warn_parse_failed c]\<rparr>
                 | Inr x \<Rightarrow> st);
          cfg' = (case cfg of
                    None \<Rightarrow> default_cfg
                  | Some x \<Rightarrow> if truthy x then x else default_cfg)
      in st1\<lparr>constructed := constructed st1 @ [(c, cfg')]\<rparr>)"

definition mountCharts ::
  "bool \<Rightarrow> (string \<Rightarrow> error + string option) \<Rightarrow> nat list \<Rightarrow> charts \<Rightarrow> charts" where
  \<comment> \<open>\<open>has_Chart\<close> tells whether \<^verbatim>\<open>window.Chart\<close> is there, \<open>canvases\<close> is
      \<^verbatim>\<open>$$('.chart-canvas')\<close>\<close>
  "mountCharts has_Chart querySelector canvases st =
     (if canvases = [] then st
      else if \<not> has_Chart
      then st\<lparr>canvas_of :=
                 foldl (\<lambda>s c. s(c := (s c)\<lparr>canvas_classes :=
                                           classList_add ''skeleton'' (canvas_classes (s c))\<rparr>))
                   (canvas_of st) canvases,
              console := console st @ [Info_chart_missing]\<rparr>
      else foldl (mount_canvas querySelector) st canvases)"

section \<open>Notions used in the proofs\<close>

text \<open>
  The sort key of a row, as the comparator computes it, and its rank in a linear order:
  negative infinity below every finite number, strings by code units.
\<close>

definition row_key :: "(nat \<Rightarrow> element) \<Rightarrow> number \<Rightarrow> string \<Rightarrow> nat \<Rightarrow> jsvalue" where
  "row_key st index type a =
     (let txt = trim (case cell_at (st a) index of None \<Rightarrow> [] | Some c \<Rightarrow> textContent c)
      in if type = ''number''
         then (let v = parseFloat (strip_number_chars txt)
               in Num (if isFinite v then v else NegInfinity))
         else Str (toLowerCase txt))"

definition key_rank :: "jsvalue \<Rightarrow> rat option \<times> string" where
  "key_rank k =
     (case k of Num (Finite q) \<Rightarrow> (Some q, []) | Num _ \<Rightarrow> (None, []) | Str s \<Rightarrow> (None, s))"

definition row_le :: "(nat \<Rightarrow> element) \<Rightarrow> number \<Rightarrow> string \<Rightarrow> int \<Rightarrow> nat \<Rightarrow> nat \<Rightarrow> bool" where
  \<comment> \<open>the comparator lets \<open>a\<close> stay before \<open>b\<close>\<close>
  "row_le st index type dir a b =
     (if dir = 1
      then key_rank (row_key st index type a) \<le> key_rank (row_key st index type b)
      else key_rank (row_key st index type b) \<le> key_rank (row_key st index type a))"

fun insort_le :: "('a \<Rightarrow> 'a \<Rightarrow> bool) \<Rightarrow> 'a \<Rightarrow> 'a list \<Rightarrow> 'a list" where
  "insort_le le x [] = [x]"
| "insort_le le x (y # ys) = (if le x y then x # y # ys else y # insort_le le x ys)"

fun sort_le :: "('a \<Rightarrow> 'a \<Rightarrow> bool) \<Rightarrow> 'a list \<Rightarrow> 'a list" where
  "sort_le le [] = []"
| "sort_le le (x # xs) = insort_le le x (sort_le le xs)"

definition sort_dir :: "number \<Rightarrow> view \<Rightarrow> int" where
  \<comment> \<open>the \<^verbatim>\<open>dir\<close> a click on column \<open>index\<close> computes\<close>
  "sort_dir index v =
     (if data_sort_col v = Some (String_number index) \<and> data_sort_dir v = Some ''asc''
      then - 1 else 1)"

definition sorted_view :: "number \<Rightarrow> string \<Rightarrow> int \<Rightarrow> view \<Rightarrow> view" where
  \<comment> \<open>the view with its rows in comparator order for \<open>dir\<close> and the sort state recorded\<close>
  "sorted_view index type dir v =
     v\<lparr>tbody_rows := sort_le (row_le (elems v) index type dir) (tbody_rows v),
       data_sort_col := Some (String_number index),
       data_sort_dir := Some (if dir = 1 then ''asc'' else ''desc'')\<rparr>"


section \<open>A table for the examples\<close>

definition example_rows :: "nat \<Rightarrow> element" where
  "example_rows i =
     (if i = 0 then \<lparr>textContent = ''Pharma Co 30'',
                       cells = [\<lparr>textContent = ''Pharma Co''\<rparr>, \<lparr>textContent = ''30''\<rparr>],
                       display = []\<rparr>
      else if i = 1 then \<lparr>textContent = ''Other n/a'',
                       cells = [\<lparr>textContent = ''Other''\<rparr>, \<lparr>textContent = ''n/a''\<rparr>],
                       display = []\<rparr>
      else if i = 2 then \<lparr>textContent = ''Alpha $5'',
                       cells = [\<lparr>textContent = ''Alpha''\<rparr>, \<lparr>textContent = '' $5 ''\<rparr>],
                       display = []\<rparr>
      else \<lparr>textContent = ''Beta'', cells = [\<lparr>textContent = ''Beta''\<rparr>], display = []\<rparr>)"

definition example_view :: view where
  "example_view =
     \<lparr>elems = example_rows, tbody_rows = [0, 1, 2, 3],
      data_sort_col = None, data_sort_dir = None\<rparr>"

definition sorted_rows :: "nat \<Rightarrow> element" where
  \<comment> \<open>two rows: the first column reads a, b; the second reads x, x\<close>
  "sorted_rows i =
     (if i = 0 then \<lparr>textContent = ''a x'',
                       cells = [\<lparr>textContent = ''a''\<rparr>, \<lparr>textContent = ''x''\<rparr>],
                       display = []\<rparr>
      else \<lparr>textContent = ''b x'',
            cells = [\<lparr>textContent = ''b''\<rparr>, \<lparr>textContent = ''x''\<rparr>],
            display = []\<rparr>)"

definition sorted_table :: view where
  "sorted_table =
     \<lparr>elems = sorted_rows, tbody_rows = [0, 1], data_sort_col = None, data_sort_dir = None\<rparr>"

definition example_modals :: "nat \<Rightarrow> modal" where
  "example_modals i = \<lparr>classList = [''modal'', ''hidden''], aria_hidden = Some ''true''\<rparr>"

definition no_selector :: "string \<Rightarrow> error + string option" where
  \<comment> \<open>a document in which no selector finds an element\<close>
  "no_selector sel = Inr None"

definition example_charts :: charts where
  \<comment> \<open>one canvas, whose inline configuration is not JSON\<close>
  "example_charts =
     \<lparr>canvas_of = (\<lambda>i. \<lparr>chart_config = Some ''{type: line}'',
                            canvas_classes = [''chart-canvas'']\<rparr>),
      constructed = [], console = []\<rparr>"

definition deny_write :: "string \<Rightarrow> error + unit promise" where
  \<comment> \<open>a clipboard that rejects every write\<close>
  "deny_write text = Inr (Rejected NotAllowedError)"

definition allow_write :: "string \<Rightarrow> error + unit promise" where
  "allow_write text = Inr (Fulfilled ())"

definition number_rows :: "nat \<Rightarrow> element" where
  \<comment> \<open>three rows of one cell: 30, 5, 100\<close>
  "number_rows i =
     (if i = 0 then \<lparr>textContent = ''30'', cells = [\<lparr>textContent = ''30''\<rparr>], display = []\<rparr>
      else if i = 1 then \<lparr>textContent = ''5'', cells = [\<lparr>textContent = ''5''\<rparr>], display = []\<rparr>
      else \<lparr>textContent = ''100'', cells = [\<lparr>textContent = ''100''\<rparr>], display = []\<rparr>)"

definition number_table :: view where
  "number_table =
     \<lparr>elems = number_rows, tbody_rows = [0, 1, 2], data_sort_col = None, data_sort_dir = None\<rparr>"



section \<open>Properties of the filter\<close>

lemma str_includes_iff: "str_includes t q \<longleftrightarrow> (\<exists>u w. t = u @ q @ w)"
proof (induction t)
  case Nil
  then show ?case by auto
next
  case (Cons c cs)
  show ?case
  proof
    assume "str_includes (c # cs) q"
    then consider "prefix q (c # cs)" | "str_includes cs q" by auto
    then show "\<exists>u w. c # cs = u @ q @ w"
    proof cases
      case 1
      then obtain w where "c # cs = q @ w" by (auto simp: prefix_def)
      then have "c # cs = [] @ q @ w" by simp
      then show ?thesis by blast
    next
      case 2
      with Cons obtain u w where "cs = u @ q @ w" by blast
      then have "c # cs = (c # u) @ q @ w" by simp
      then show ?thesis by blast
    qed
  next
    assume "\<exists>u w. c # cs = u @ q @ w"
    then obtain u w where eq: "c # cs = u @ q @ w" by blast
    show "str_includes (c # cs) q"
    proof (cases u)
      case Nil
      with eq have "prefix q (c # cs)" by (simp add: prefix_def)
      then show ?thesis by simp
    next
      case (Cons a u')
      with eq have "cs = u' @ q @ w" by simp
      with Cons.IH show ?thesis by auto
    qed
  qed
qed

lemma foldl_filter_items_other:
  "r \<notin> set items \<Longrightarrow>
     foldl (\<lambda>s it. s(it := filter_item q (s it))) st items r = st r"
  by (induction items arbitrary: st) auto

lemma filter_item_idem: "filter_item q (filter_item q e) = filter_item q e"
  by (simp add: filter_item_def Let_def)

lemma filter_item_frame:
  "textContent (filter_item q e) = textContent e \<and> cells (filter_item q e) = cells e"
  by (simp add: filter_item_def Let_def)

lemma foldl_filter_items_frame:
  "textContent (foldl (\<lambda>s it. s(it := filter_item q (s it))) st items r) = textContent (st r)
   \<and> cells (foldl (\<lambda>s it. s(it := filter_item q (s it))) st items r) = cells (st r)"
  by (induction items arbitrary: st) (auto simp: filter_item_frame)

lemma foldl_filter_items_member:
  "r \<in> set items \<Longrightarrow>
     foldl (\<lambda>s it. s(it := filter_item q (s it))) st items r = filter_item q (st r)"
proof (induction items arbitrary: st)
  case Nil
  then show ?case by simp
next
  case (Cons a items)
  let ?st = "st(a := filter_item q (st a))"
  show ?case
  proof (cases "r \<in> set items")
    case True
    with Cons.IH have "foldl (\<lambda>s it. s(it := filter_item q (s it))) ?st items r
        = filter_item q (?st r)" by blast
    moreover have "filter_item q (?st r) = filter_item q (st r)"
      by (cases "r = a") (simp_all add: filter_item_idem)
    moreover have "foldl (\<lambda>s it. s(it := filter_item q (s it))) st (a # items)
        = foldl (\<lambda>s it. s(it := filter_item q (s it))) ?st items" by simp
    ultimately show ?thesis by (simp only:)
  next
    case False
    with Cons.prems have "r = a" by simp
    have "foldl (\<lambda>s it. s(it := filter_item q (s it))) st (a # items)
        = foldl (\<lambda>s it. s(it := filter_item q (s it))) ?st items" by simp
    moreover have "foldl (\<lambda>s it. s(it := filter_item q (s it))) ?st items r = ?st r"
      using False by (rule foldl_filter_items_other)
    moreover have "?st r = filter_item q (st r)" using \<open>r = a\<close> by simp
    ultimately show ?thesis by (simp only:)
  qed
qed

lemma foldl_filter_items_eq:
  "foldl (\<lambda>s it. s(it := filter_item q (s it))) st items
     = (\<lambda>r. if r \<in> set items then filter_item q (st r) else st r)"
  by (rule ext) (simp add: foldl_filter_items_member foldl_filter_items_other)

lemma filter_input_elems:
  "elems (filter_input items val v)
     = (\<lambda>r. if r \<in> set items then filter_item (toLowerCase (trim val)) (elems v r)
             else elems v r)"
  by (simp add: filter_input_def Let_def foldl_filter_items_eq)

text \<open>
  C1. After the filter listener has run with the input value \<open>val\<close>, a row that was
  captured at initialization is visible (its display style is not \<^verbatim>\<open>none\<close>)
  exactly when the trimmed, lower-cased query is empty or occurs as a substring of the
  row's trimmed, lower-cased text content; a row that fails the test has display style
  \<^verbatim>\<open>none\<close>.
\<close>

theorem filter_visible_iff:
  assumes "r \<in> set items"
  shows "(visible (filter_input items val v) r \<longleftrightarrow>
            toLowerCase (trim val) = [] \<or>
            (\<exists>u w. toLowerCase (trim (textContent (elems v r))) = u @ toLowerCase (trim val) @ w))
         \<and> (\<not> visible (filter_input items val v) r \<longrightarrow>
            display (elems (filter_input items val v) r) = ''none'')"
proof -
  have "elems (filter_input items val v) r = filter_item (toLowerCase (trim val)) (elems v r)"
    using assms by (simp add: filter_input_def Let_def foldl_filter_items_member)
  then show ?thesis
    by (simp add: visible_def filter_item_def Let_def str_includes_iff)
qed


theorem filter_visible_iff_witness:
  "(0::nat) \<in> set [0, 1, 2, 3]
   \<and> visible (filter_input [0, 1, 2, 3] '' Ph '' example_view) 0
   \<and> (1::nat) \<in> set [0, 1, 2, 3]
   \<and> display (elems (filter_input [0, 1, 2, 3] '' Ph '' example_view) 1) = ''none''"
proof -
  have m0: "(0::nat) \<in> set [0, 1, 2, 3]" and m1: "(1::nat) \<in> set [0, 1, 2, 3]"
    by simp_all
  have q: "toLowerCase (trim '' Ph '') = ''ph''" by code_simp
  have t0: "toLowerCase (trim (textContent (elems example_view 0))) = ''pharma co 30''"
    by code_simp
  have t1: "toLowerCase (trim (textContent (elems example_view 1))) = ''other n/a''"
    by code_simp
  have "str_includes ''pharma co 30'' ''ph''" by code_simp
  with str_includes_iff [of "''pharma co 30''" "''ph''"]
  have i0: "\<exists>u w. ''pharma co 30'' = u @ ''ph'' @ w" by blast
  have "\<not> str_includes ''other n/a'' ''ph''" by code_simp
  with str_includes_iff [of "''other n/a''" "''ph''"]
  have i1: "\<not> (\<exists>u w. ''other n/a'' = u @ ''ph'' @ w)" by blast
  from filter_visible_iff [OF m0, of "'' Ph ''" example_view]
  have "visible (filter_input [0, 1, 2, 3] '' Ph '' example_view) 0"
    unfolding q t0 using i0 by blast
  moreover from filter_visible_iff [OF m1, of "'' Ph ''" example_view]
  have "display (elems (filter_input [0, 1, 2, 3] '' Ph '' example_view) 1) = ''none''"
    unfolding q t1 using i1 by blast
  ultimately show ?thesis using m0 m1 by blast
qed

text \<open>
  C7. Filtering is idempotent: running the filter listener a second time with the same
  input value leaves the view as the first run left it, so the set of visible rows after
  two runs is the set after one.
\<close>

theorem filter_idempotent:
  "filter_input items val (filter_input items val v) = filter_input items val v
   \<and> {r. visible (filter_input items val (filter_input items val v)) r}
       = {r. visible (filter_input items val v) r}"
proof -
  have "elems (filter_input items val (filter_input items val v))
      = elems (filter_input items val v)"
    by (rule ext) (simp add: filter_input_elems filter_item_idem)
  moreover have "filter_input items val (filter_input items val v)
      = (filter_input items val v)
          \<lparr>elems := elems (filter_input items val (filter_input items val v))\<rparr>"
    by (simp add: filter_input_def Let_def)
  ultimately have "filter_input items val (filter_input items val v) = filter_input items val v"
    by simp
  then show ?thesis by simp
qed

section \<open>Numbers: evaluation\<close>

lemma binary64_overflow_code [code]:
  "binary64_overflow = 179769313486231590772930519078902473361797697894230657273430081157732675805500963132708477322407536021120113879871393357658789768814416622492847430639474124377767893424865485276302219601246094119453082952085005768838150682342462881473913110540827237163350510684586298239947245938479716304835356329624224137216"
  by (simp add: binary64_overflow_def)

section \<open>Stable sorting by a total preorder\<close>

lemma mset_insort_le: "mset (insort_le le x ys) = add_mset x (mset ys)"
  by (induction ys) auto

lemma mset_sort_le: "mset (sort_le le xs) = mset xs"
  by (induction xs) (auto simp: mset_insort_le)

lemma set_insort_le: "set (insort_le le x ys) = insert x (set ys)"
  by (induction ys) auto

lemma sorted_wrt_insort_le:
  assumes tot: "\<And>x y. le x y \<or> le y x"
    and trans: "\<And>x y z. le x y \<Longrightarrow> le y z \<Longrightarrow> le x z"
    and "sorted_wrt le ys"
  shows "sorted_wrt le (insort_le le x ys)"
  using assms(3)
proof (induction ys)
  case Nil
  then show ?case by simp
next
  case (Cons y ys)
  show ?case
  proof (cases "le x y")
    case True
    with Cons.prems trans show ?thesis by auto
  next
    case False
    with tot have "le y x" by blast
    with False Cons show ?thesis by (auto simp: set_insort_le)
  qed
qed

lemma sorted_wrt_sort_le:
  assumes tot: "\<And>x y. le x y \<or> le y x"
    and trans: "\<And>x y z. le x y \<Longrightarrow> le y z \<Longrightarrow> le x z"
  shows "sorted_wrt le (sort_le le xs)"
proof (induction xs)
  case Nil
  then show ?case by simp
next
  case (Cons x xs)
  have "sorted_wrt le (insort_le le x (sort_le le xs))"
  proof (rule sorted_wrt_insort_le)
    show "le a b \<or> le b a" for a b by (rule tot)
    show "le a b \<Longrightarrow> le b c \<Longrightarrow> le a c" for a b c by (rule trans)
    show "sorted_wrt le (sort_le le xs)" by (rule Cons.IH)
  qed
  then show ?case by simp
qed

lemma insort_le_left_comm:
  assumes tot: "\<And>x y. le x y \<or> le y x"
    and trans: "\<And>x y z. le x y \<Longrightarrow> le y z \<Longrightarrow> le x z"
    and ne: "\<not> (le x y \<and> le y x)"
  shows "insort_le le x (insort_le le y zs) = insort_le le y (insort_le le x zs)"
proof (induction zs)
  case Nil
  from tot ne show ?case by auto
next
  case (Cons z zs)
  from tot ne consider "le x y" "\<not> le y x" | "le y x" "\<not> le x y" by blast
  then show ?case
  proof cases
    case 1
    then have "le y z \<Longrightarrow> le x z" using trans by blast
    with 1 Cons show ?thesis by auto
  next
    case 2
    then have "le x z \<Longrightarrow> le y z" using trans by blast
    with 2 Cons show ?thesis by auto
  qed
qed

lemma sort_le_insort_other:
  assumes tot: "\<And>x y. le2 x y \<or> le2 y x"
    and trans: "\<And>x y z. le2 x y \<Longrightarrow> le2 y z \<Longrightarrow> le2 x z"
    and skip: "\<And>y. \<not> le1 x y \<Longrightarrow> \<not> (le2 x y \<and> le2 y x)"
  shows "sort_le le2 (insort_le le1 x ys) = insort_le le2 x (sort_le le2 ys)"
proof (induction ys)
  case Nil
  then show ?case by simp
next
  case (Cons y ys)
  show ?case
  proof (cases "le1 x y")
    case True
    then show ?thesis by simp
  next
    case False
    then have "\<not> (le2 y x \<and> le2 x y)" using skip by blast
    have "insort_le le2 y (insort_le le2 x (sort_le le2 ys))
        = insort_le le2 x (insort_le le2 y (sort_le le2 ys))"
    proof (rule insort_le_left_comm)
      show "le2 a b \<or> le2 b a" for a b by (rule tot)
      show "le2 a b \<Longrightarrow> le2 b c \<Longrightarrow> le2 a c" for a b c by (rule trans)
      show "\<not> (le2 y x \<and> le2 x y)" using skip [OF False] by blast
    qed
    with False Cons show ?thesis by simp
  qed
qed

lemma sort_le_sort_le:
  assumes tot: "\<And>x y. le2 x y \<or> le2 y x"
    and trans: "\<And>x y z. le2 x y \<Longrightarrow> le2 y z \<Longrightarrow> le2 x z"
    and skip: "\<And>x y. \<not> le1 x y \<Longrightarrow> \<not> (le2 x y \<and> le2 y x)"
  shows "sort_le le2 (sort_le le1 xs) = sort_le le2 xs"
proof (induction xs)
  case Nil
  then show ?case by simp
next
  case (Cons x xs)
  have "sort_le le2 (insort_le le1 x (sort_le le1 xs))
      = insort_le le2 x (sort_le le2 (sort_le le1 xs))"
  proof (rule sort_le_insort_other)
    show "le2 a b \<or> le2 b a" for a b by (rule tot)
    show "le2 a b \<Longrightarrow> le2 b c \<Longrightarrow> le2 a c" for a b c by (rule trans)
    show "\<not> le1 x y \<Longrightarrow> \<not> (le2 x y \<and> le2 y x)" for y by (rule skip)
  qed
  with Cons show ?case by simp
qed

lemma filter_insort_le:
  assumes "\<And>a b. P a \<Longrightarrow> P b \<Longrightarrow> le a b"
  shows "filter P (insort_le le x ys) = (if P x then x # filter P ys else filter P ys)"
proof (induction ys)
  case Nil
  show ?case by simp
next
  case (Cons y ys)
  show ?case
  proof (cases "le x y")
    case True
    then show ?thesis by simp
  next
    case False
    with assms have "\<not> (P x \<and> P y)" by blast
    with False Cons show ?thesis by auto
  qed
qed

lemma sort_le_stable:
  assumes trans: "\<And>x y z. le x y \<Longrightarrow> le y z \<Longrightarrow> le x z"
  shows "filter (\<lambda>y. le k y \<and> le y k) (sort_le le xs) = filter (\<lambda>y. le k y \<and> le y k) xs"
proof (induction xs)
  case Nil
  show ?case by simp
next
  case (Cons x xs)
  have "filter (\<lambda>y. le k y \<and> le y k) (insort_le le x (sort_le le xs))
      = (if le k x \<and> le x k then x # filter (\<lambda>y. le k y \<and> le y k) (sort_le le xs)
         else filter (\<lambda>y. le k y \<and> le y k) (sort_le le xs))"
    by (rule filter_insort_le) (blast intro: trans)
  with Cons show ?case by simp
qed

lemma insort_le_middle:
  assumes "\<And>u. u \<in> set us \<Longrightarrow> \<not> le x u" and "\<And>v. v \<in> set vs \<Longrightarrow> le x v"
  shows "insort_le le x (us @ vs) = us @ x # vs"
  using assms(1)
proof (induction us)
  case Nil
  from assms(2) show ?case by (cases vs) simp_all
next
  case (Cons u us)
  then show ?case by simp
qed

lemma sort_le_unique:
  assumes tot: "\<And>x y. le x y \<or> le y x"
    and trans: "\<And>x y z. le x y \<Longrightarrow> le y z \<Longrightarrow> le x z"
    and "mset ys = mset xs"
    and "sorted_wrt le ys"
    and "\<And>k. filter (\<lambda>y. le k y \<and> le y k) ys = filter (\<lambda>y. le k y \<and> le y k) xs"
  shows "ys = sort_le le xs"
  using assms(3-5)
proof (induction xs arbitrary: ys)
  case Nil
  then show ?case by simp
next
  case (Cons x xs)
  let ?E = "\<lambda>k y. le k y \<and> le y k"
  have refl: "le a a" for a using tot by blast
  from Cons.prems(3) [of x] refl have "filter (?E x) ys = x # filter (?E x) xs" by simp
  then obtain us vs where ys: "ys = us @ x # vs"
    and us: "\<forall>u\<in>set us. \<not> ?E x u" and vs: "filter (?E x) xs = filter (?E x) vs"
    by (auto simp: filter_eq_Cons_iff)
  from Cons.prems(2) ys have sorted: "sorted_wrt le (us @ vs)"
    and before: "\<forall>u\<in>set us. le u x" and after: "\<forall>v\<in>set vs. le x v"
    by (auto simp: sorted_wrt_append)
  have "us @ vs = sort_le le xs"
  proof (rule Cons.IH)
    from Cons.prems(1) ys show "mset (us @ vs) = mset xs" by simp
    show "sorted_wrt le (us @ vs)" by (rule sorted)
    show "filter (?E k) (us @ vs) = filter (?E k) xs" for k
    proof (cases "?E k x")
      case True
      then have "?E k y \<longleftrightarrow> ?E x y" for y using trans by blast
      then have eq: "filter (?E k) zs = filter (?E x) zs" for zs by simp
      from us have "filter (?E x) us = []" by (simp add: filter_empty_conv)
      with vs show ?thesis by (simp add: eq)
    next
      case False
      with Cons.prems(3) [of k] ys show ?thesis by auto
    qed
  qed
  moreover have "insort_le le x (us @ vs) = us @ x # vs"
  proof (rule insort_le_middle)
    show "\<not> le x u" if "u \<in> set us" for u using that us before by blast
    show "le x v" if "v \<in> set vs" for v using that after by blast
  qed
  ultimately show ?case using ys by simp
qed

lemma foldl_appendChild:
  "distinct ys \<Longrightarrow>
     foldl (\<lambda>cs r. appendChild r cs) cs ys = filter (\<lambda>x. x \<notin> set ys) cs @ ys"
  unfolding appendChild_def
proof (induction ys arbitrary: cs)
  case Nil
  then show ?case by simp
next
  case (Cons y ys)
  then have "foldl (\<lambda>cs r. filter (\<lambda>x. x \<noteq> r) cs @ [r]) (filter (\<lambda>x. x \<noteq> y) cs @ [y]) ys
      = filter (\<lambda>x. x \<notin> set ys) (filter (\<lambda>x. x \<noteq> y) cs @ [y]) @ ys" by simp
  also have "\<dots> = filter (\<lambda>x. x \<notin> set (y # ys)) cs @ y # ys"
    using Cons.prems by (auto intro: filter_cong)
  finally show ?case by simp
qed


lemma foldl_appendChild_perm:
  assumes "distinct cs" and "mset ys = mset cs"
  shows "foldl (\<lambda>cs r. appendChild r cs) cs ys = ys"
proof -
  from assms have d: "distinct ys" and s: "set ys = set cs"
    by (metis mset_eq_imp_distinct_iff, metis mset_eq_setD)
  from s have "filter (\<lambda>x. x \<notin> set ys) cs = []" by (simp add: filter_empty_conv)
  with foldl_appendChild [OF d, of cs] show ?thesis by simp
qed

lemma array_sort_insort_le:
  assumes "\<And>a b. \<exists>n. c a b = Inr n \<and> (n \<le> 0 \<longleftrightarrow> le a b)"
  shows "insort_by c x ys = Inr (insort_le le x ys)"
proof (induction ys)
  case Nil
  then show ?case by simp
next
  case (Cons y ys)
  from assms obtain n where "c x y = Inr n" "n \<le> 0 \<longleftrightarrow> le x y" by blast
  with Cons show ?case by simp
qed

lemma array_sort_sort_le:
  assumes "\<And>a b. \<exists>n. c a b = Inr n \<and> (n \<le> 0 \<longleftrightarrow> le a b)"
  shows "array_sort c xs = Inr (sort_le le xs)"
  by (induction xs) (simp_all add: array_sort_insort_le [of c le, OF assms])

section \<open>The comparator and the click handler\<close>

lemma parseCellValue_row_key:
  "parseCellValue (or_else (cell_at (st a) index) \<lparr>textContent = []\<rparr>) type
     = Inr (row_key st index type a)"
  by (cases "cell_at (st a) index")
    (simp_all add: parseCellValue_def or_else_def row_key_def Let_def)

lemma sort_number_cases:
  "(if isFinite v then v else NegInfinity) = NegInfinity
   \<or> (\<exists>q. (if isFinite v then v else NegInfinity) = Finite q)"
  by (cases v) (simp_all add: isFinite_def)

lemma row_key_cases:
  "(type = ''number'' \<and> (\<forall>a. row_key st index type a = Num NegInfinity
                              \<or> (\<exists>q. row_key st index type a = Num (Finite q))))
   \<or> (type \<noteq> ''number'' \<and> (\<forall>a. \<exists>s. row_key st index type a = Str s))"
proof (cases "type = ''number''")
  case True
  have "row_key st index type a = Num NegInfinity
      \<or> (\<exists>q. row_key st index type a = Num (Finite q))" for a
    using True sort_number_cases
      [of "parseFloat (strip_number_chars (trim (case cell_at (st a) index of
             None \<Rightarrow> [] | Some c \<Rightarrow> textContent c)))"]
    by (simp add: row_key_def Let_def)
  with True show ?thesis by blast
next
  case False
  then show ?thesis by (simp add: row_key_def Let_def)
qed

lemma row_key_strict_equals:
  "strict_equals (row_key st index type a) (row_key st index type b)
     \<longleftrightarrow> key_rank (row_key st index type a) = key_rank (row_key st index type b)"
  using row_key_cases [of type st index]
proof (elim disjE conjE)
  assume "\<forall>a. row_key st index type a = Num NegInfinity
            \<or> (\<exists>q. row_key st index type a = Num (Finite q))"
  then have "row_key st index type a = Num NegInfinity
              \<or> (\<exists>q. row_key st index type a = Num (Finite q))"
    and "row_key st index type b = Num NegInfinity
              \<or> (\<exists>q. row_key st index type b = Num (Finite q))" by blast+
  then show ?thesis by (auto simp: key_rank_def)
next
  assume "\<forall>a. \<exists>s. row_key st index type a = Str s"
  then obtain s t where "row_key st index type a = Str s" "row_key st index type b = Str t"
    by blast
  then show ?thesis by (simp add: key_rank_def)
qed

lemma row_key_greater_than:
  "greater_than (row_key st index type a) (row_key st index type b)
     \<longleftrightarrow> key_rank (row_key st index type b) < key_rank (row_key st index type a)"
  using row_key_cases [of type st index]
proof (elim disjE conjE)
  assume "\<forall>a. row_key st index type a = Num NegInfinity
            \<or> (\<exists>q. row_key st index type a = Num (Finite q))"
  then have "row_key st index type a = Num NegInfinity
              \<or> (\<exists>q. row_key st index type a = Num (Finite q))"
    and "row_key st index type b = Num NegInfinity
              \<or> (\<exists>q. row_key st index type b = Num (Finite q))" by blast+
  then show ?thesis by (auto simp: key_rank_def less_prod_def)
next
  assume "\<forall>a. \<exists>s. row_key st index type a = Str s"
  then obtain s t where "row_key st index type a = Str s" "row_key st index type b = Str t"
    by blast
  then show ?thesis by (simp add: key_rank_def less_prod_def)
qed

lemma compare_rows_eq:
  "compare_rows st index type dir a b =
     Inr (if key_rank (row_key st index type a) = key_rank (row_key st index type b) then 0
          else if key_rank (row_key st index type b) < key_rank (row_key st index type a)
               then dir else - dir)"
  by (simp add: compare_rows_def parseCellValue_row_key row_key_strict_equals
      row_key_greater_than)

lemma compare_rows_le:
  assumes "dir = 1 \<or> dir = - 1"
  shows "\<exists>n. compare_rows st index type dir a b = Inr n
              \<and> (n \<le> 0 \<longleftrightarrow> row_le st index type dir a b)"
  using assms by (auto simp: compare_rows_eq row_le_def)

lemma row_le_total: "row_le st index type dir a b \<or> row_le st index type dir b a"
  by (auto simp: row_le_def)

lemma row_le_trans:
  "row_le st index type dir a b \<Longrightarrow> row_le st index type dir b c
     \<Longrightarrow> row_le st index type dir a c"
  by (auto simp: row_le_def split: if_splits)

lemma sort_dir_cases: "sort_dir index v = 1 \<or> sort_dir index v = - 1"
  by (simp add: sort_dir_def)

lemma makeSortHandler_eq:
  "makeSortHandler index type v =
     Inr (v\<lparr>tbody_rows := foldl (\<lambda>children r. appendChild r children) (tbody_rows v)
              (sort_le (row_le (elems v) index type (sort_dir index v)) (tbody_rows v)),
            data_sort_col := Some (String_number index),
            data_sort_dir := Some (if sort_dir index v = 1 then ''asc'' else ''desc'')\<rparr>)"
proof -
  have "array_sort (compare_rows (elems v) index type (sort_dir index v)) (tbody_rows v)
      = Inr (sort_le (row_le (elems v) index type (sort_dir index v)) (tbody_rows v))"
    by (rule array_sort_sort_le) (rule compare_rows_le [OF sort_dir_cases])
  then show ?thesis
    by (simp add: makeSortHandler_def Let_def sort_dir_def)
qed

lemma makeSortHandler_distinct:
  assumes "distinct (tbody_rows v)"
  shows "makeSortHandler index type v =
     Inr (v\<lparr>tbody_rows := sort_le (row_le (elems v) index type (sort_dir index v)) (tbody_rows v),
            data_sort_col := Some (String_number index),
            data_sort_dir := Some (if sort_dir index v = 1 then ''asc'' else ''desc'')\<rparr>)"
  using foldl_appendChild_perm [OF assms mset_sort_le]
  by (simp add: makeSortHandler_eq)

lemma makeSortHandler_sorted_view:
  assumes "distinct (tbody_rows v)"
  shows "makeSortHandler index type v = Inr (sorted_view index type (sort_dir index v) v)"
  using makeSortHandler_distinct [OF assms] by (simp add: sorted_view_def)

lemma distinct_sort_le: "distinct (sort_le le xs) = distinct xs"
  by (metis mset_sort_le mset_eq_imp_distinct_iff)

lemma sorted_view_simps:
  "elems (sorted_view index type d v) = elems v"
  "distinct (tbody_rows (sorted_view index type d v)) = distinct (tbody_rows v)"
  "mset (tbody_rows (sorted_view index type d v)) = mset (tbody_rows v)"
  by (simp_all add: sorted_view_def distinct_sort_le mset_sort_le)

lemma sort_dir_sorted_view:
  assumes "d = 1 \<or> d = - 1"
  shows "sort_dir index (sorted_view index type d v) = - d"
  using assms by (auto simp: sort_dir_def sorted_view_def)

lemma row_le_flip:
  assumes "d = 1 \<or> d = - 1" and "\<not> row_le st index type d x y"
  shows "\<not> (row_le st index type (- d) x y \<and> row_le st index type (- d) y x)"
  using assms by (auto simp: row_le_def)

lemma sorted_view_twice:
  assumes "d = 1 \<or> d = - 1"
  shows "sorted_view index type (- d) (sorted_view index type d v)
           = sorted_view index type (- d) v"
proof -
  have "sort_le (row_le (elems v) index type (- d))
          (sort_le (row_le (elems v) index type d) (tbody_rows v))
      = sort_le (row_le (elems v) index type (- d)) (tbody_rows v)"
  proof (rule sort_le_sort_le)
    show "row_le (elems v) index type (- d) a b \<or> row_le (elems v) index type (- d) b a"
      for a b by (rule row_le_total)
    show "row_le (elems v) index type (- d) a b \<Longrightarrow> row_le (elems v) index type (- d) b c
        \<Longrightarrow> row_le (elems v) index type (- d) a c" for a b c by (rule row_le_trans)
    show "\<not> row_le (elems v) index type d x y \<Longrightarrow>
        \<not> (row_le (elems v) index type (- d) x y \<and> row_le (elems v) index type (- d) y x)"
      for x y by (rule row_le_flip [OF assms])
  qed
  then show ?thesis by (simp add: sorted_view_def)
qed

lemma run_listeners_single:
  "run_listeners [(index, type)] v = makeSortHandler index type v"
  by (cases "makeSortHandler index type v") simp_all

lemma run_listeners_Cons:
  assumes "distinct (tbody_rows v)"
  shows "run_listeners ((index, type) # ls) v
           = run_listeners ls (sorted_view index type (sort_dir index v) v)"
  by (simp add: makeSortHandler_sorted_view [OF assms])

lemma click_twice:
  assumes "distinct (tbody_rows v)"
  shows "run_listeners [(index, type), (index, type)] v
           = Inr (sorted_view index type (- sort_dir index v) v)"
proof -
  let ?d = "sort_dir index v"
  let ?v1 = "sorted_view index type ?d v"
  have d1: "distinct (tbody_rows ?v1)" using assms by (simp add: sorted_view_simps)
  have "run_listeners [(index, type), (index, type)] v = makeSortHandler index type ?v1"
    by (simp only: run_listeners_Cons [OF assms] run_listeners_single)
  also have "\<dots> = Inr (sorted_view index type (sort_dir index ?v1) ?v1)"
    by (rule makeSortHandler_sorted_view [OF d1])
  also have "sort_dir index ?v1 = - ?d"
    by (rule sort_dir_sorted_view [OF sort_dir_cases])
  also have "sorted_view index type (- ?d) ?v1 = sorted_view index type (- ?d) v"
    by (rule sorted_view_twice [OF sort_dir_cases])
  finally show ?thesis .
qed

lemma click_thrice:
  assumes "distinct (tbody_rows v)"
  shows "run_listeners [(index, type), (index, type), (index, type)] v
           = makeSortHandler index type v"
proof -
  let ?d = "sort_dir index v"
  let ?v1 = "sorted_view index type ?d v"
  have d1: "distinct (tbody_rows ?v1)" using assms by (simp add: sorted_view_simps)
  have m: "- ?d = 1 \<or> - ?d = - 1" using sort_dir_cases [of index v] by auto
  have "run_listeners [(index, type), (index, type), (index, type)] v
      = run_listeners [(index, type), (index, type)] ?v1"
    by (simp only: run_listeners_Cons [OF assms])
  also have "\<dots> = Inr (sorted_view index type (- sort_dir index ?v1) ?v1)"
    by (rule click_twice [OF d1])
  also have "sort_dir index ?v1 = - ?d"
    by (rule sort_dir_sorted_view [OF sort_dir_cases])
  also have "sorted_view index type (- (- ?d)) ?v1
      = sorted_view index type (- (- ?d)) (sorted_view index type (- ?d) ?v1)"
    by (rule sorted_view_twice [OF m, symmetric])
  also have "sorted_view index type (- ?d) ?v1 = sorted_view index type (- ?d) v"
    by (rule sorted_view_twice [OF sort_dir_cases])
  also have "sorted_view index type (- (- ?d)) (sorted_view index type (- ?d) v)
      = sorted_view index type (- (- ?d)) v"
    by (rule sorted_view_twice [OF m])
  finally show ?thesis by (simp add: makeSortHandler_sorted_view [OF assms])
qed

section \<open>Properties of sorting\<close>

text \<open>
  C3. A sort invocation on column \<open>index\<close> never fails. If the table records this column
  as active (its \<^verbatim>\<open>data-sort-col\<close> is \<open>String(index)\<close>) with direction
  \<^verbatim>\<open>asc\<close>, the new direction is descending; in every other case, also when
  nothing is recorded yet, it is ascending. The rows are arranged by the comparator of
  that direction, and afterwards the table records the requested column and the new
  direction.
\<close>

theorem sort_direction_recorded:
  "\<exists>v'. makeSortHandler index type v = Inr v'
     \<and> data_sort_col v' = Some (String_number index)
     \<and> data_sort_dir v' =
         Some (if data_sort_col v = Some (String_number index) \<and> data_sort_dir v = Some ''asc''
               then ''desc'' else ''asc'')
     \<and> tbody_rows v' =
         foldl (\<lambda>children r. appendChild r children) (tbody_rows v)
           (sort_le (row_le (elems v) index type
              (if data_sort_col v = Some (String_number index) \<and> data_sort_dir v = Some ''asc''
               then - 1 else 1)) (tbody_rows v))"
  by (simp add: makeSortHandler_eq sort_dir_def)

text \<open>
  C5. Neither operation touches the identity or the text of a row. The filter listener
  keeps the child sequence of the table body and the sort state, and keeps the text
  content and the cells of every element: only display styles change. A sort invocation
  on a table body (whose child sequence lists each row once) succeeds and keeps every
  element as it is, cell texts and display styles included: only the child sequence
  changes, and it holds the same rows as before.
\<close>

theorem filter_sort_frame:
  assumes "distinct (tbody_rows v)"
  shows "tbody_rows (filter_input items val v) = tbody_rows v
       \<and> data_sort_col (filter_input items val v) = data_sort_col v
       \<and> data_sort_dir (filter_input items val v) = data_sort_dir v
       \<and> (\<forall>r. textContent (elems (filter_input items val v) r) = textContent (elems v r)
              \<and> cells (elems (filter_input items val v) r) = cells (elems v r))
       \<and> (\<exists>v'. makeSortHandler index type v = Inr v'
              \<and> elems v' = elems v
              \<and> mset (tbody_rows v') = mset (tbody_rows v))"
proof -
  have "tbody_rows (filter_input items val v) = tbody_rows v"
    and "data_sort_col (filter_input items val v) = data_sort_col v"
    and "data_sort_dir (filter_input items val v) = data_sort_dir v"
    by (simp_all add: filter_input_def Let_def)
  moreover have "textContent (elems (filter_input items val v) r) = textContent (elems v r)
      \<and> cells (elems (filter_input items val v) r) = cells (elems v r)" for r
    by (simp add: filter_input_elems filter_item_frame)
  moreover have "\<exists>v'. makeSortHandler index type v = Inr v'
      \<and> elems v' = elems v \<and> mset (tbody_rows v') = mset (tbody_rows v)"
    by (simp add: makeSortHandler_sorted_view [OF assms] sorted_view_simps)
  ultimately show ?thesis by blast
qed

theorem filter_sort_frame_witness:
  "distinct (tbody_rows example_view)
   \<and> tbody_rows (filter_input [0, 1, 2, 3] ''ph'' example_view) = [0, 1, 2, 3]
   \<and> cells (elems (filter_input [0, 1, 2, 3] ''ph'' example_view) 1) = cells (example_rows 1)
   \<and> (\<exists>v'. makeSortHandler (Finite 0) ''string'' example_view = Inr v'
          \<and> elems v' = example_rows
          \<and> mset (tbody_rows v') = mset [0, 1, 2, 3])"
proof -
  have d: "distinct (tbody_rows example_view)" by (simp add: example_view_def)
  from filter_sort_frame [OF d, of "[0, 1, 2, 3]" "''ph''" "Finite 0" "''string''"] d
  show ?thesis by (simp add: example_view_def)
qed

text \<open>
  C9 as amended. Repeated sorting on one column, with no other column sorted in between,
  cycles: after the first sort, every even number of further sorts on that column brings
  the table (whose body lists each row once) back to the row order and sort state the
  first sort produced (ascending, descending, ascending). This is a sufficient condition
  only.
\<close>

theorem sort_cycle:
  assumes "distinct (tbody_rows v)"
  shows "run_listeners (replicate (2 * n + 1) (index, type)) v = makeSortHandler index type v"
  using assms
proof (induction n arbitrary: v)
  case 0
  have "replicate (2 * 0 + 1) (index, type) = [(index, type)]" by simp
  then show ?case by (simp only: run_listeners_single)
next
  case (Suc n)
  let ?v1 = "sorted_view index type (sort_dir index v) v"
  let ?v2 = "sorted_view index type (sort_dir index ?v1) ?v1"
  have d1: "distinct (tbody_rows ?v1)" using Suc.prems by (simp add: sorted_view_simps)
  then have d2: "distinct (tbody_rows ?v2)" by (simp add: sorted_view_simps)
  have "replicate (2 * Suc n + 1) (index, type)
      = (index, type) # (index, type) # replicate (2 * n + 1) (index, type)" by simp
  then have "run_listeners (replicate (2 * Suc n + 1) (index, type)) v
      = run_listeners (replicate (2 * n + 1) (index, type)) ?v2"
    by (simp only: run_listeners_Cons [OF Suc.prems] run_listeners_Cons [OF d1])
  also have "\<dots> = makeSortHandler index type ?v2" by (rule Suc.IH [OF d2])
  also have "\<dots> = run_listeners [(index, type), (index, type), (index, type)] v"
    by (simp only: run_listeners_Cons [OF Suc.prems] run_listeners_Cons [OF d1]
        run_listeners_single)
  also have "\<dots> = makeSortHandler index type v" by (rule click_thrice [OF Suc.prems])
  finally show ?case .
qed

theorem sort_cycle_witness:
  "distinct (tbody_rows sorted_table)
   \<and> run_listeners (replicate (2 * 1 + 1) (Finite 0, ''string'')) sorted_table
       = makeSortHandler (Finite 0) ''string'' sorted_table"
proof -
  have d: "distinct (tbody_rows sorted_table)" by (simp add: sorted_table_def)
  from sort_cycle [OF d, of 1 "Finite 0" "''string''"] d show ?thesis by blast
qed

text \<open>
  C9 as stated fails. In a table whose second column reads x, x, two sorts on that column
  (one toggle, from ascending to descending) leave the rows in their original order; and
  sorting the first column, then the second, then the first again also ends in the
  original order, although another column was sorted in between.
\<close>

theorem sort_return_counterexample:
  "map_sum id tbody_rows (run_listeners [(Finite 1, ''string''), (Finite 1, ''string'')]
       sorted_table) = Inr (tbody_rows sorted_table)
   \<and> map_sum id data_sort_dir (run_listeners [(Finite 1, ''string'')] sorted_table)
       = Inr (Some ''asc'')
   \<and> map_sum id data_sort_dir (run_listeners [(Finite 1, ''string''), (Finite 1, ''string'')]
       sorted_table) = Inr (Some ''desc'')
   \<and> map_sum id tbody_rows (run_listeners [(Finite 0, ''string'')] sorted_table)
       = Inr (tbody_rows sorted_table)
   \<and> map_sum id tbody_rows
       (run_listeners [(Finite 0, ''string''), (Finite 1, ''string''), (Finite 0, ''string'')]
         sorted_table) = Inr (tbody_rows sorted_table)"
  by code_simp





lemma sorted_view_ordered:
  assumes "i < j" and "j < length (tbody_rows (sorted_view index type d v))"
  shows "row_le (elems v) index type d
           (tbody_rows (sorted_view index type d v) ! i)
           (tbody_rows (sorted_view index type d v) ! j)"
proof -
  have "sorted_wrt (row_le (elems v) index type d)
          (sort_le (row_le (elems v) index type d) (tbody_rows v))"
  proof (rule sorted_wrt_sort_le)
    show "row_le (elems v) index type d a b \<or> row_le (elems v) index type d b a" for a b
      by (rule row_le_total)
    show "row_le (elems v) index type d a b \<Longrightarrow> row_le (elems v) index type d b c
        \<Longrightarrow> row_le (elems v) index type d a c" for a b c by (rule row_le_trans)
  qed
  with assms show ?thesis by (simp add: sorted_view_def sorted_wrt_iff_nth_less)
qed





lemma parseFloat_Nil: "parseFloat [] = NaN"
  by (simp add: parseFloat_def unsigned_literal_def)

lemma trim_Nil: "trim [] = []"
  by (simp add: trim_def)

lemma key_rank_missing:
  assumes "cell_at (st a) index = None"
  shows "key_rank (row_key st index type a) = (None, [])"
  using assms
  by (simp add: row_key_def trim_Nil strip_number_chars_def parseFloat_Nil isFinite_def
      toLowerCase_def key_rank_def)

lemma key_rank_least: "(None, []) \<le> key_rank k"
  by (cases "key_rank k") (simp add: less_eq_prod_def)

lemma sorted_view_rank_order:
  assumes "d = 1 \<or> d = - 1"
    and "i < length (tbody_rows (sorted_view index type d v))"
    and "j < length (tbody_rows (sorted_view index type d v))"
    and "key_rank (row_key (elems v) index type (tbody_rows (sorted_view index type d v) ! i))
         < key_rank (row_key (elems v) index type (tbody_rows (sorted_view index type d v) ! j))"
  shows "if data_sort_dir (sorted_view index type d v) = Some ''asc'' then i < j else j < i"
proof -
  have dir: "data_sort_dir (sorted_view index type d v) = Some ''asc'' \<longleftrightarrow> d = 1"
    by (simp add: sorted_view_def)
  from assms(4) have ne: "i \<noteq> j" by auto
  show ?thesis
  proof (cases "d = 1")
    case True
    have "i < j"
    proof (rule ccontr)
      assume "\<not> i < j"
      with ne have "j < i" by simp
      from sorted_view_ordered [OF this assms(2)] True assms(4) show False
        by (simp add: row_le_def)
    qed
    with True dir show ?thesis by simp
  next
    case False
    have "j < i"
    proof (rule ccontr)
      assume "\<not> j < i"
      with ne have "i < j" by simp
      from sorted_view_ordered [OF this assms(3)] False assms(4) show False
        by (simp add: row_le_def)
    qed
    with False dir show ?thesis by simp
  qed
qed

lemma row_key_empty_cell:
  assumes "cell_at (elems v a) index = None"
    and "cell_at ((elems v a)\<lparr>cells := cs\<rparr>) index = Some \<lparr>textContent = []\<rparr>"
  shows "row_key ((elems v)(a := (elems v a)\<lparr>cells := cs\<rparr>)) index type r
           = row_key (elems v) index type r"
  using assms by (cases "r = a") (simp_all add: row_key_def)

lemma sorted_view_empty_cell:
  assumes "cell_at (elems v a) index = None"
    and "cell_at ((elems v a)\<lparr>cells := cs\<rparr>) index = Some \<lparr>textContent = []\<rparr>"
  shows "tbody_rows (sorted_view index type d
           (v\<lparr>elems := (elems v)(a := (elems v a)\<lparr>cells := cs\<rparr>)\<rparr>))
         = tbody_rows (sorted_view index type d v)"
proof -
  have "row_le ((elems v)(a := (elems v a)\<lparr>cells := cs\<rparr>)) index type d
      = row_le (elems v) index type d"
    by (intro ext) (simp add: row_le_def row_key_empty_cell [OF assms])
  then show ?thesis by (simp add: sorted_view_def)
qed

text \<open>
  C6. A row without a cell at the requested column is compared as a row whose cell has
  the empty text, and its sort weight is minimal: whatever the other row, the ascending
  comparator never puts it after that row and the descending comparator never puts it
  before. A sort invocation never raises an exception. In its result (for a table body
  that lists each row once) every row without a cell at the column stands before every
  row that does not tie with it when the direction is ascending, and after every such
  row when it is descending; and the resulting row order is the one the same table gives
  when the row does have a cell with the empty text at the column. For a table without a
  body the set-up wires nothing: the header cells stay as they are, and a click on a
  header cell without listeners leaves the view unchanged.
\<close>

theorem missing_cell_minimum:
  assumes "cell_at (elems v a) index = None"
  shows "parseCellValue (or_else (cell_at (elems v a) index) \<lparr>textContent = []\<rparr>) type
           = parseCellValue (Some \<lparr>textContent = []\<rparr>) type
       \<and> (\<forall>b. \<exists>n. compare_rows (elems v) index type 1 a b = Inr n \<and> n \<le> 0)
       \<and> (\<forall>b. \<exists>n. compare_rows (elems v) index type (- 1) a b = Inr n \<and> 0 \<le> n)
       \<and> (\<exists>v'. makeSortHandler index type v = Inr v'
            \<and> (distinct (tbody_rows v) \<longrightarrow>
                 (\<forall>i j. i < length (tbody_rows v') \<and> j < length (tbody_rows v')
                      \<and> cell_at (elems v (tbody_rows v' ! i)) index = None
                      \<and> compare_rows (elems v) index type 1
                            (tbody_rows v' ! i) (tbody_rows v' ! j) \<noteq> Inr 0
                    \<longrightarrow> (if data_sort_dir v' = Some ''asc'' then i < j else j < i))
                 \<and> (cell_at ((elems v a)\<lparr>cells := cs\<rparr>) index = Some \<lparr>textContent = []\<rparr>
                    \<longrightarrow> map_sum id tbody_rows
                          (makeSortHandler index type
                             (v\<lparr>elems := (elems v)(a := (elems v a)\<lparr>cells := cs\<rparr>)\<rparr>))
                        = Inr (tbody_rows v'))))
       \<and> sortable_setup False headers = headers
       \<and> (listeners h = [] \<longrightarrow> th_click h v = Inr v)"
proof -
  let ?d = "sort_dir index v"
  let ?v' = "sorted_view index type ?d v"
  let ?rows = "tbody_rows ?v'"
  let ?w = "v\<lparr>elems := (elems v)(a := (elems v a)\<lparr>cells := cs\<rparr>)\<rparr>"
  have rank: "key_rank (row_key (elems v) index type a) \<le> key_rank (row_key (elems v) index type b)"
    for b
    using key_rank_missing [of "elems v" a index type] assms
      key_rank_least [of "row_key (elems v) index type b"] by simp
  have c1: "parseCellValue (or_else (cell_at (elems v a) index) \<lparr>textContent = []\<rparr>) type
      = parseCellValue (Some \<lparr>textContent = []\<rparr>) type"
    using assms by (simp add: or_else_def)
  have c2: "\<exists>n. compare_rows (elems v) index type 1 a b = Inr n \<and> n \<le> 0" for b
    using rank [of b] by (auto simp: compare_rows_eq)
  have c3: "\<exists>n. compare_rows (elems v) index type (- 1) a b = Inr n \<and> 0 \<le> n" for b
    using rank [of b] by (auto simp: compare_rows_eq)
  have order: "if data_sort_dir ?v' = Some ''asc'' then i < j else j < i"
    if "i < length ?rows" "j < length ?rows"
      "cell_at (elems v (?rows ! i)) index = None"
      "compare_rows (elems v) index type 1 (?rows ! i) (?rows ! j) \<noteq> Inr 0" for i j
  proof -
    from that(3) have "key_rank (row_key (elems v) index type (?rows ! i)) = (None, [])"
      by (rule key_rank_missing)
    moreover from that(4)
    have "key_rank (row_key (elems v) index type (?rows ! i))
        \<noteq> key_rank (row_key (elems v) index type (?rows ! j))"
      by (auto simp: compare_rows_eq)
    ultimately have "key_rank (row_key (elems v) index type (?rows ! i))
        < key_rank (row_key (elems v) index type (?rows ! j))"
      using key_rank_least [of "row_key (elems v) index type (?rows ! j)"] by simp
    with sort_dir_cases that(1,2) show ?thesis by (rule sorted_view_rank_order)
  qed
  have same: "map_sum id tbody_rows (makeSortHandler index type ?w) = Inr ?rows"
    if d: "distinct (tbody_rows v)"
      and e: "cell_at ((elems v a)\<lparr>cells := cs\<rparr>) index = Some \<lparr>textContent = []\<rparr>"
  proof -
    from d have "distinct (tbody_rows ?w)" by simp
    then have "makeSortHandler index type ?w = Inr (sorted_view index type (sort_dir index ?w) ?w)"
      by (rule makeSortHandler_sorted_view)
    moreover have "sort_dir index ?w = ?d" by (simp add: sort_dir_def)
    ultimately show ?thesis by (simp add: sorted_view_empty_cell [OF assms e])
  qed
  have succeeds: "\<exists>v'. makeSortHandler index type v = Inr v'
      \<and> (distinct (tbody_rows v) \<longrightarrow>
           (\<forall>i j. i < length (tbody_rows v') \<and> j < length (tbody_rows v')
                \<and> cell_at (elems v (tbody_rows v' ! i)) index = None
                \<and> compare_rows (elems v) index type 1
                      (tbody_rows v' ! i) (tbody_rows v' ! j) \<noteq> Inr 0
              \<longrightarrow> (if data_sort_dir v' = Some ''asc'' then i < j else j < i))
           \<and> (cell_at ((elems v a)\<lparr>cells := cs\<rparr>) index = Some \<lparr>textContent = []\<rparr>
              \<longrightarrow> map_sum id tbody_rows (makeSortHandler index type ?w)
                  = Inr (tbody_rows v')))"
  proof (cases "distinct (tbody_rows v)")
    case True
    from makeSortHandler_sorted_view [OF True]
    have "makeSortHandler index type v = Inr ?v'" .
    with order same [OF True] show ?thesis by blast
  next
    case False
    then show ?thesis by (simp add: makeSortHandler_eq)
  qed
  have c5: "sortable_setup False headers = headers"
    by (simp add: sortable_setup_def)
  have c6: "listeners h = [] \<longrightarrow> th_click h v = Inr v"
    by (simp add: th_click_def)
  from c1 c2 c3 succeeds c5 c6 show ?thesis by blast
qed

theorem missing_cell_minimum_witness:
  "cell_at (elems example_view 3) (Finite 1) = None
   \<and> distinct (tbody_rows example_view)
   \<and> cell_at ((elems example_view 3)\<lparr>cells := [\<lparr>textContent = ''Beta''\<rparr>, \<lparr>textContent = []\<rparr>]\<rparr>)
        (Finite 1) = Some \<lparr>textContent = []\<rparr>
   \<and> compare_rows (elems example_view) (Finite 1) ''string'' 1 3 0 = Inr (- 1)
   \<and> tbody_rows example_view = [0, 1, 2, 3]
   \<and> map_sum id tbody_rows (makeSortHandler (Finite 1) ''string'' example_view)
       = Inr [3, 2, 0, 1]
   \<and> map_sum id tbody_rows
        (makeSortHandler (Finite 1) ''string''
           (example_view\<lparr>elems := (elems example_view)
              (3 := (elems example_view 3)
                 \<lparr>cells := [\<lparr>textContent = ''Beta''\<rparr>, \<lparr>textContent = []\<rparr>]\<rparr>)\<rparr>))
       = Inr [3, 2, 0, 1]
   \<and> map_sum id tbody_rows
        (run_listeners [(Finite 1, ''string''), (Finite 1, ''string'')] example_view)
       = Inr [1, 0, 2, 3]
   \<and> listeners \<lparr>data_sort = ''1'', data_type = None, cursor = [], listeners = []\<rparr> = []
   \<and> th_click \<lparr>data_sort = ''1'', data_type = None, cursor = [], listeners = []\<rparr> example_view
       = Inr example_view"
proof -
  let ?cs = "[\<lparr>textContent = ''Beta''\<rparr>, \<lparr>textContent = []\<rparr>]"
  let ?h = "\<lparr>data_sort = ''1'', data_type = None, cursor = [], listeners = []\<rparr>"
  have m: "cell_at (elems example_view 3) (Finite 1) = None"
    by (simp add: cell_at_def example_view_def example_rows_def)
  have d: "distinct (tbody_rows example_view)" by (simp add: example_view_def)
  have e: "cell_at ((elems example_view 3)\<lparr>cells := ?cs\<rparr>) (Finite 1)
      = Some \<lparr>textContent = []\<rparr>"
    by (simp add: cell_at_def)
  have c: "compare_rows (elems example_view) (Finite 1) ''string'' 1 3 0 = Inr (- 1)"
    by code_simp
  have t: "tbody_rows example_view = [0, 1, 2, 3]" by (simp add: example_view_def)
  have r: "map_sum id tbody_rows (makeSortHandler (Finite 1) ''string'' example_view)
      = Inr [3, 2, 0, 1]" by code_simp
  have r2: "map_sum id tbody_rows
      (run_listeners [(Finite 1, ''string''), (Finite 1, ''string'')] example_view)
      = Inr [1, 0, 2, 3]" by code_simp
  from missing_cell_minimum [OF m, of "''string''" ?cs "[]" ?h] d e
  obtain v' where v': "makeSortHandler (Finite 1) ''string'' example_view = Inr v'"
    and p: "map_sum id tbody_rows
        (makeSortHandler (Finite 1) ''string''
           (example_view\<lparr>elems := (elems example_view)
              (3 := (elems example_view 3)\<lparr>cells := ?cs\<rparr>)\<rparr>)) = Inr (tbody_rows v')"
    and l: "th_click ?h example_view = Inr example_view"
    by auto
  from v' r have "tbody_rows v' = [3, 2, 0, 1]" by simp
  with p have "map_sum id tbody_rows
      (makeSortHandler (Finite 1) ''string''
         (example_view\<lparr>elems := (elems example_view)
            (3 := (elems example_view 3)\<lparr>cells := ?cs\<rparr>)\<rparr>)) = Inr [3, 2, 0, 1]"
    by simp
  with m d e c t r r2 l show ?thesis by simp
qed

section \<open>Worked scenarios\<close>

text \<open>
  The rows 30, 5, 100 of a numeric column come out as 5, 30, 100 on the first click and as
  100, 30, 5 on the second; text keys ignore case and surrounding white space; and three
  sorts of the first column of the example table end in the order of the first sort, not
  in the order the table had before.
\<close>

lemma scenario_numbers:
  "map_sum id tbody_rows (run_listeners [(Finite 0, ''number'')] number_table) = Inr [1, 0, 2]
   \<and> map_sum id tbody_rows
        (run_listeners [(Finite 0, ''number''), (Finite 0, ''number'')] number_table)
       = Inr [2, 0, 1]"
  by code_simp

lemma scenario_case_insensitive:
  "parseCellValue (Some \<lparr>textContent = ''Apple''\<rparr>) ''string''
     = parseCellValue (Some \<lparr>textContent = '' apple ''\<rparr>) ''string''"
  by code_simp

lemma scenario_three_sorts:
  "map_sum id tbody_rows (run_listeners [(Finite 0, ''string'')] example_view)
     = Inr [2, 3, 1, 0]
   \<and> map_sum id tbody_rows
        (run_listeners [(Finite 0, ''string''), (Finite 0, ''string''), (Finite 0, ''string'')]
           example_view)
       = Inr [2, 3, 1, 0]
   \<and> tbody_rows example_view = [0, 1, 2, 3]"
  by code_simp

section \<open>Properties of the modal handlers\<close>

lemma foldl_update_idem:
  assumes "\<And>e. f (f e) = f e"
  shows "foldl (\<lambda>s i. s(i := f (s i))) st xs = (\<lambda>r. if r \<in> set xs then f (st r) else st r)"
proof (induction xs arbitrary: st)
  case Nil
  then show ?case by simp
next
  case (Cons a xs)
  have "foldl (\<lambda>s i. s(i := f (s i))) st (a # xs)
      = foldl (\<lambda>s i. s(i := f (s i))) (st(a := f (st a))) xs" by simp
  also have "\<dots> = (\<lambda>r. if r \<in> set xs then f ((st(a := f (st a))) r) else (st(a := f (st a))) r)"
    by (rule Cons.IH)
  also have "\<dots> = (\<lambda>r. if r \<in> set (a # xs) then f (st r) else st r)"
    by (rule ext) (simp add: assms)
  finally show ?case .
qed

lemma classList_add_idem: "classList_add t (classList_add t cl) = classList_add t cl"
  by (simp add: classList_add_def)

lemma classList_add_member: "t \<in> set (classList_add t cl)"
  by (simp add: classList_add_def)

lemma keydown_Escape:
  "keydown ''Escape'' doc st m = (st m)\<lparr>classList :=
      (if m \<in> set doc \<and> ''modal'' \<in> set (classList (st m))
       then classList_add ''hidden'' (classList (st m)) else classList (st m))\<rparr>"
proof -
  let ?f = "\<lambda>e::modal. e\<lparr>classList := classList_add ''hidden'' (classList e)\<rparr>"
  let ?sel = "filter (\<lambda>m. ''modal'' \<in> set (classList (st m))
                          \<and> ''hidden'' \<notin> set (classList (st m))) doc"
  have "foldl (\<lambda>s i. s(i := ?f (s i))) st ?sel
      = (\<lambda>r. if r \<in> set ?sel then ?f (st r) else st r)"
    by (rule foldl_update_idem) (simp add: classList_add_idem)
  then have "keydown ''Escape'' doc st m = (if m \<in> set ?sel then ?f (st m) else st m)"
    by (simp add: keydown_def)
  then show ?thesis by (auto simp: classList_add_def)
qed

text \<open>
  C10. For a modal of the document (an element with class \<^verbatim>\<open>modal\<close>), the Escape
  key and a click on the overlay do nothing but add the class \<^verbatim>\<open>hidden\<close>: the
  \<^verbatim>\<open>aria-hidden\<close> attribute stays as it was. A click on a close button inside the
  modal adds the class and sets \<^verbatim>\<open>aria-hidden\<close> to \<^verbatim>\<open>true\<close>. Hence a modal
  that was opened (which sets \<^verbatim>\<open>aria-hidden\<close> to \<^verbatim>\<open>false\<close>) and is then
  dismissed by Escape or by an overlay click is hidden with \<^verbatim>\<open>aria-hidden\<close> still
  \<^verbatim>\<open>false\<close>.
\<close>

theorem modal_dismissal_aria:
  assumes "m \<in> set doc" and "''modal'' \<in> set (classList (st m))"
  shows "keydown ''Escape'' doc st m
           = (st m)\<lparr>classList := classList_add ''hidden'' (classList (st m))\<rparr>
       \<and> modal_overlay_click m m st m
           = (st m)\<lparr>classList := classList_add ''hidden'' (classList (st m))\<rparr>
       \<and> aria_hidden (keydown ''Escape'' doc st m) = aria_hidden (st m)
       \<and> aria_hidden (modal_overlay_click m m st m) = aria_hidden (st m)
       \<and> (\<exists>st'. modal_close_click (Some m) modalClose querySelector st = Inr st'
              \<and> st' m = (st m)\<lparr>classList := classList_add ''hidden'' (classList (st m)),
                                aria_hidden := Some ''true''\<rparr>)
       \<and> (\<exists>st1. modal_open_click (Inr (Some m)) st = Inr st1
              \<and> ''hidden'' \<in> set (classList (keydown ''Escape'' doc st1 m))
              \<and> aria_hidden (keydown ''Escape'' doc st1 m) = Some ''false''
              \<and> ''hidden'' \<in> set (classList (modal_overlay_click m m st1 m))
              \<and> aria_hidden (modal_overlay_click m m st1 m) = Some ''false'')"
proof -
  let ?st1 = "st(m := (st m)\<lparr>classList := classList_remove ''hidden'' (classList (st m)),
                               aria_hidden := Some ''false''\<rparr>)"
  have esc: "keydown ''Escape'' doc st m
      = (st m)\<lparr>classList := classList_add ''hidden'' (classList (st m))\<rparr>"
    using assms by (simp add: keydown_Escape)
  have ovl: "modal_overlay_click m m st m
      = (st m)\<lparr>classList := classList_add ''hidden'' (classList (st m))\<rparr>"
    using assms by (simp add: modal_overlay_click_def)
  have close: "\<exists>st'. modal_close_click (Some m) modalClose querySelector st = Inr st'
      \<and> st' m = (st m)\<lparr>classList := classList_add ''hidden'' (classList (st m)),
                        aria_hidden := Some ''true''\<rparr>"
    by (simp add: modal_close_click_def)
  have open1: "modal_open_click (Inr (Some m)) st = Inr ?st1"
    by (simp add: modal_open_click_def)
  have cls1: "''modal'' \<in> set (classList (?st1 m))"
    using assms by (simp add: classList_remove_def)
  have esc1: "keydown ''Escape'' doc ?st1 m
      = (?st1 m)\<lparr>classList := classList_add ''hidden'' (classList (?st1 m))\<rparr>"
    using assms(1) cls1 by (simp only: keydown_Escape if_True simp_thms)
  have ovl1: "modal_overlay_click m m ?st1 m
      = (?st1 m)\<lparr>classList := classList_add ''hidden'' (classList (?st1 m))\<rparr>"
    using cls1 by (simp add: modal_overlay_click_def)
  have "''hidden'' \<in> set (classList (keydown ''Escape'' doc ?st1 m))"
    and "aria_hidden (keydown ''Escape'' doc ?st1 m) = Some ''false''"
    and "''hidden'' \<in> set (classList (modal_overlay_click m m ?st1 m))"
    and "aria_hidden (modal_overlay_click m m ?st1 m) = Some ''false''"
    unfolding esc1 ovl1 by (simp_all add: classList_add_member)
  with open1 have "\<exists>st1. modal_open_click (Inr (Some m)) st = Inr st1
      \<and> ''hidden'' \<in> set (classList (keydown ''Escape'' doc st1 m))
      \<and> aria_hidden (keydown ''Escape'' doc st1 m) = Some ''false''
      \<and> ''hidden'' \<in> set (classList (modal_overlay_click m m st1 m))
      \<and> aria_hidden (modal_overlay_click m m st1 m) = Some ''false''"
    by blast
  moreover have "aria_hidden (keydown ''Escape'' doc st m) = aria_hidden (st m)"
    and "aria_hidden (modal_overlay_click m m st m) = aria_hidden (st m)"
    unfolding esc ovl by simp_all
  ultimately show ?thesis using esc ovl close by blast
qed

theorem modal_dismissal_aria_witness:
  "(0::nat) \<in> set [0] \<and> ''modal'' \<in> set (classList (example_modals 0))
   \<and> (\<exists>st1. modal_open_click (Inr (Some 0)) example_modals = Inr st1
          \<and> classList (st1 0) = [''modal'']
          \<and> ''hidden'' \<in> set (classList (keydown ''Escape'' [0] st1 0))
          \<and> aria_hidden (keydown ''Escape'' [0] st1 0) = Some ''false'')"
proof -
  have a: "(0::nat) \<in> set [0]" and b: "''modal'' \<in> set (classList (example_modals 0))"
    by (simp_all add: example_modals_def)
  from modal_dismissal_aria [where m = 0 and doc = "[0]" and st = example_modals, OF a b]
  obtain st1 where "modal_open_click (Inr (Some 0)) example_modals = Inr st1"
    and "''hidden'' \<in> set (classList (keydown ''Escape'' [0] st1 0))"
    and "aria_hidden (keydown ''Escape'' [0] st1 0) = Some ''false''"
    by blast
  moreover from this(1) have "classList (st1 0) = [''modal'']"
    by (auto simp: modal_open_click_def example_modals_def classList_remove_def)
  ultimately show ?thesis using a b by blast
qed

section \<open>Properties of the copy helper\<close>

text \<open>
  C8. The promise returned by the public copy helper is never rejected, whatever the
  text and the clipboard. When the write is rejected the helper's promise is fulfilled
  with \<^verbatim>\<open>false\<close>; when the write succeeds it is fulfilled with \<^verbatim>\<open>true\<close>.
\<close>

theorem copyText_outcome:
  "(\<forall>e. copyText clipboard text \<noteq> Rejected e)
   \<and> (clipboard = Some writeText \<and> writeText text = Inr (Rejected e')
        \<longrightarrow> copyText clipboard text = Fulfilled False)
   \<and> (clipboard = Some writeText \<and> writeText text = Inr (Fulfilled ())
        \<longrightarrow> copyText clipboard text = Fulfilled True)"
  by (auto simp: copyText_def split: option.splits sum.splits promise.splits)

theorem copyText_outcome_witness:
  "deny_write ''00962'' = Inr (Rejected NotAllowedError)
   \<and> copyText (Some deny_write) ''00962'' = Fulfilled False
   \<and> allow_write ''00962'' = Inr (Fulfilled ())
   \<and> copyText (Some allow_write) ''00962'' = Fulfilled True"
proof -
  have d: "deny_write ''00962'' = Inr (Rejected NotAllowedError)"
    by (simp add: deny_write_def)
  have a: "allow_write ''00962'' = Inr (Fulfilled ())"
    by (simp add: allow_write_def)
  from copyText_outcome [of "Some deny_write" "''00962''" deny_write NotAllowedError] d
  have "copyText (Some deny_write) ''00962'' = Fulfilled False" by blast
  moreover
  from copyText_outcome [of "Some allow_write" "''00962''" allow_write] a
  have "copyText (Some allow_write) ''00962'' = Fulfilled True" by blast
  ultimately show ?thesis using d a by blast
qed

section \<open>The JSON reader has fuel enough\<close>

lemma json_string_shorter:
  "json_string s = Some (x, t) \<Longrightarrow> length t < length s"
proof (induction "length s" arbitrary: s x t rule: less_induct)
  case less
  have IH: "length t' < length s'"
    if "json_string s' = Some (x', t')" "length s' < length s" for s' x' t'
    using less.hyps that by blast
  show ?case
  proof (cases s)
    case Nil
    with less.prems show ?thesis by simp
  next
    case (Cons c cs)
    show ?thesis
    proof (cases "c = CHR 0x22")
      case True
      with Cons less.prems show ?thesis by simp
    next
      case nq: False
      show ?thesis
      proof (cases "c = CHR 0x5C")
        case False
        with nq Cons less.prems obtain x' where "json_string cs = Some (x', t)"
          by (auto split: if_splits)
        from IH [OF this] Cons show ?thesis by simp
      next
        case True
        with nq Cons less.prems obtain e r where cs: "cs = e # r"
          by (cases cs) auto
        show ?thesis
        proof (cases "e = CHR ''u''")
          case False
          with True nq Cons cs less.prems obtain x' where "json_string r = Some (x', t)"
            by (auto split: if_splits)
          from IH [OF this] Cons cs show ?thesis by simp
        next
          case u: True
          with True nq Cons cs less.prems obtain h1 h2 h3 h4 r' x'
            where "r = h1 # h2 # h3 # h4 # r'" "json_string r' = Some (x', t)"
            by (auto split: if_splits list.splits)
          with IH [OF this(2)] Cons cs show ?thesis by simp
        qed
      qed
    qed
  qed
qed


lemma dropWhile_Cons_shorter: "dropWhile P xs = y # ys \<Longrightarrow> length ys < length xs"
  using length_dropWhile_le [of P xs] by simp

lemma takeWhile_dropWhile_shorter:
  "takeWhile P xs \<noteq> [] \<Longrightarrow> length (dropWhile P xs) < length xs"
  by (cases xs) (auto simp: le_imp_less_Suc length_dropWhile_le split: if_splits)

lemma json_fraction_shorter: "json_fraction s = Some (fp, t) \<Longrightarrow> length t \<le> length s"
  by (cases s) (auto simp: json_fraction_def le_SucI length_dropWhile_le split: if_splits)

lemma json_exponent_shorter: "json_exponent s = Some (e, t) \<Longrightarrow> length t \<le> length s"
proof (cases s)
  case Nil
  assume "json_exponent s = Some (e, t)"
  with Nil show ?thesis by (simp add: json_exponent_def)
next
  case (Cons c cs)
  assume a: "json_exponent s = Some (e, t)"
  have "length (dropWhile is_digit (tl cs)) \<le> length cs"
    using length_dropWhile_le [of is_digit "tl cs"] by simp
  moreover have "length (dropWhile is_digit cs) \<le> length cs"
    by (rule length_dropWhile_le)
  ultimately show ?thesis using a Cons
    by (auto simp: json_exponent_def Let_def split: if_splits)
qed

lemma json_number_shorter:
  assumes "json_number s = Some (v, t)"
  shows "length t < length s"
proof -
  let ?s1 = "if s \<noteq> [] \<and> hd s = CHR ''-'' then tl s else s"
  from assms have ip: "takeWhile is_digit ?s1 \<noteq> []"
    by (auto simp: json_number_def Let_def split: if_splits)
  from assms obtain fp r2 e where f: "json_fraction (dropWhile is_digit ?s1) = Some (fp, r2)"
    and x: "json_exponent r2 = Some (e, t)"
    by (auto simp: json_number_def Let_def split: if_splits option.splits)
  from ip have "length (dropWhile is_digit ?s1) < length ?s1"
    by (rule takeWhile_dropWhile_shorter)
  moreover have "length ?s1 \<le> length s" by simp
  moreover note json_fraction_shorter [OF f] json_exponent_shorter [OF x]
  ultimately show ?thesis by linarith
qed

lemma json_scalar_shorter:
  assumes "json_scalar s = Some (v, t)"
  shows "length t < length s"
proof (cases s)
  case Nil
  with assms show ?thesis by (simp add: json_scalar_def)
next
  case (Cons c cs)
  consider (str) "c = CHR 0x22"
    | (num) "c \<noteq> CHR 0x22" "c = CHR ''-'' \<or> is_digit c"
    | (lit) "c \<noteq> CHR 0x22" "\<not> (c = CHR ''-'' \<or> is_digit c)" by blast
  then show ?thesis
  proof cases
    case str
    with assms Cons obtain x where "json_string cs = Some (x, t)"
      by (auto simp: json_scalar_def)
    from json_string_shorter [OF this] Cons show ?thesis by simp
  next
    case num
    with assms Cons have "json_number s = Some (v, t)"
      by (simp add: json_scalar_def)
    then show ?thesis by (rule json_number_shorter)
  next
    case lit
    with assms Cons have "t = drop 4 s \<or> t = drop 5 s"
      by (auto simp: json_scalar_def split: if_splits)
    with Cons show ?thesis by auto
  qed
qed


lemma json_shorter_aux:
  "(\<forall>s v t. json_value n s = Some (v, t) \<longrightarrow> length t < length s)
   \<and> (\<forall>s vs t. json_elements n s = Some (vs, t) \<longrightarrow> length t < length s)
   \<and> (\<forall>s ms t. json_members n s = Some (ms, t) \<longrightarrow> length t < length s)"
proof (induction n)
  case 0
  show ?case by simp
next
  case (Suc n)
  then have V: "\<And>s v t. json_value n s = Some (v, t) \<Longrightarrow> length t < length s"
    and E: "\<And>s vs t. json_elements n s = Some (vs, t) \<Longrightarrow> length t < length s"
    and M: "\<And>s ms t. json_members n s = Some (ms, t) \<Longrightarrow> length t < length s"
    by blast+
  have vl: "length t < length s" if a: "json_value (Suc n) s = Some (v, t)" for s v t
  proof -
    from a obtain c cs where dw: "dropWhile json_ws s = c # cs"
      by (auto split: list.splits)
    note l0 = dropWhile_Cons_shorter [OF dw]
    consider (obj) "c = CHR ''{''" | (arr) "c \<noteq> CHR ''{''" "c = CHR ''[''"
      | (sc) "c \<noteq> CHR ''{''" "c \<noteq> CHR ''[''" by blast
    then show ?thesis
    proof cases
      case obj
      with a dw obtain d ds where dw2: "dropWhile json_ws cs = d # ds"
        by (auto split: list.splits)
      note l1 = dropWhile_Cons_shorter [OF dw2]
      show ?thesis
      proof (cases "d = CHR ''}''")
        case True
        with a dw obj dw2 have "t = ds" by simp
        with l0 l1 show ?thesis by simp
      next
        case False
        with a dw obj dw2 obtain ms where "json_members n (d # ds) = Some (ms, t)" by auto
        from M [OF this] l0 l1 show ?thesis by simp
      qed
    next
      case arr
      with a dw obtain d ds where dw2: "dropWhile json_ws cs = d # ds"
        by (auto split: list.splits)
      note l1 = dropWhile_Cons_shorter [OF dw2]
      show ?thesis
      proof (cases "d = CHR '']''")
        case True
        with a dw arr dw2 have "t = ds" by simp
        with l0 l1 show ?thesis by simp
      next
        case False
        with a dw arr dw2 obtain vs where "json_elements n (d # ds) = Some (vs, t)" by auto
        from E [OF this] l0 l1 show ?thesis by simp
      qed
    next
      case sc
      with a dw have "json_scalar (c # cs) = Some (v, t)" by simp
      from json_scalar_shorter [OF this] l0 show ?thesis by simp
    qed
  qed
  have el: "length t < length s" if a: "json_elements (Suc n) s = Some (vs, t)" for s vs t
  proof -
    from a obtain v t1 where v: "json_value n s = Some (v, t1)"
      by (auto split: option.splits)
    with a obtain c cs where dw: "dropWhile json_ws t1 = c # cs"
      by (auto split: list.splits)
    note l0 = V [OF v] dropWhile_Cons_shorter [OF dw]
    show ?thesis
    proof (cases "c = CHR '',''")
      case True
      with a v dw obtain vs' where "json_elements n cs = Some (vs', t)" by auto
      from E [OF this] l0 show ?thesis by simp
    next
      case False
      with a v dw have "t = cs" by (auto split: if_splits)
      with l0 show ?thesis by simp
    qed
  qed
  have ml: "length t < length s" if a: "json_members (Suc n) s = Some (ms, t)" for s ms t
  proof -
    from a obtain q s1 where dw: "dropWhile json_ws s = q # s1"
      by (auto split: list.splits)
    with a have q: "q = CHR 0x22" by (auto split: if_splits)
    with a dw obtain k s2 where k: "json_string s1 = Some (k, s2)"
      by (auto split: option.splits)
    with a dw q obtain col s3 where dw2: "dropWhile json_ws s2 = col # s3"
      by (auto split: list.splits)
    with a dw q k have col: "col = CHR '':''" by (auto split: if_splits)
    with a dw q k dw2 obtain v s4 where v: "json_value n s3 = Some (v, s4)"
      by (auto split: option.splits)
    with a dw q k dw2 col obtain c cs where dw3: "dropWhile json_ws s4 = c # cs"
      by (auto split: list.splits)
    note l0 = dropWhile_Cons_shorter [OF dw] json_string_shorter [OF k]
      dropWhile_Cons_shorter [OF dw2] V [OF v] dropWhile_Cons_shorter [OF dw3]
    show ?thesis
    proof (cases "c = CHR '',''")
      case True
      with a dw q k dw2 col v dw3 obtain ms' where "json_members n cs = Some (ms', t)" by auto
      from M [OF this] l0 show ?thesis by simp
    next
      case False
      with a dw q k dw2 col v dw3 have "t = cs" by (auto split: if_splits)
      with l0 show ?thesis by simp
    qed
  qed
  from vl el ml show ?case by blast
qed

lemma json_value_shorter: "json_value n s = Some (v, t) \<Longrightarrow> length t < length s"
  using json_shorter_aux by blast


lemma json_fuel_aux:
  "(\<forall>s. 2 * length s + 1 \<le> n \<longrightarrow> json_value (Suc n) s = json_value n s)
   \<and> (\<forall>s. 2 * length s + 2 \<le> n \<longrightarrow> json_elements (Suc n) s = json_elements n s)
   \<and> (\<forall>s. 2 * length s + 2 \<le> n \<longrightarrow> json_members (Suc n) s = json_members n s)"
proof (induction n)
  case 0
  show ?case by simp
next
  case (Suc n)
  then have V: "\<And>s. 2 * length s + 1 \<le> n \<Longrightarrow> json_value (Suc n) s = json_value n s"
    and E: "\<And>s. 2 * length s + 2 \<le> n \<Longrightarrow> json_elements (Suc n) s = json_elements n s"
    and M: "\<And>s. 2 * length s + 2 \<le> n \<Longrightarrow> json_members (Suc n) s = json_members n s"
    by blast+
  have vl: "json_value (Suc (Suc n)) s = json_value (Suc n) s"
    if b: "2 * length s + 1 \<le> Suc n" for s
  proof (cases "dropWhile json_ws s")
    case Nil
    then show ?thesis
      by (simp only: json_value.simps(2) [of "Suc n" s] json_value.simps(2) [of n s] list.case)
  next
    case (Cons c cs)
    note l0 = dropWhile_Cons_shorter [OF Cons]
    show ?thesis
    proof (cases "dropWhile json_ws cs")
      case Nil
      with Cons show ?thesis
        by (simp only: json_value.simps(2) [of "Suc n" s] json_value.simps(2) [of n s]
            list.case)
    next
      case inner: (Cons d ds)
      from length_dropWhile_le [of json_ws cs] inner have "length (d # ds) \<le> length cs"
        by simp
      with l0 b have "2 * length (d # ds) + 2 \<le> n" by simp
      then have "json_members (Suc n) (d # ds) = json_members n (d # ds)"
        and "json_elements (Suc n) (d # ds) = json_elements n (d # ds)"
        by (rule M, rule E)
      with Cons inner show ?thesis
        by (simp only: json_value.simps(2) [of "Suc n" s] json_value.simps(2) [of n s]
            list.case)
    qed
  qed
  have el: "json_elements (Suc (Suc n)) s = json_elements (Suc n) s"
    if b: "2 * length s + 2 \<le> Suc n" for s
  proof -
    from b have v: "json_value (Suc n) s = json_value n s" by (intro V) simp
    show ?thesis
    proof (cases "json_value n s")
      case None
      with v show ?thesis
        by (simp only: json_elements.simps(2) [of "Suc n" s] json_elements.simps(2) [of n s]
            option.case)
    next
      case (Some r)
      obtain x t where r: "r = (x, t)" by (cases r)
      note l0 = json_value_shorter [OF Some [unfolded r]]
      show ?thesis
      proof (cases "dropWhile json_ws t")
        case Nil
        with v Some r show ?thesis
          by (simp only: json_elements.simps(2) [of "Suc n" s] json_elements.simps(2) [of n s]
              option.case prod.case list.case)
      next
        case (Cons c cs)
        from dropWhile_Cons_shorter [OF Cons] l0 b have "2 * length cs + 2 \<le> n" by simp
        then have "json_elements (Suc n) cs = json_elements n cs" by (rule E)
        with v Some r Cons show ?thesis
          by (simp only: json_elements.simps(2) [of "Suc n" s] json_elements.simps(2) [of n s]
              option.case prod.case list.case)
      qed
    qed
  qed
  have ml: "json_members (Suc (Suc n)) s = json_members (Suc n) s"
    if b: "2 * length s + 2 \<le> Suc n" for s
  proof (cases "dropWhile json_ws s")
    case Nil
    then show ?thesis
      by (simp only: json_members.simps(2) [of "Suc n" s] json_members.simps(2) [of n s]
          list.case)
  next
    case (Cons q s1)
    note l0 = dropWhile_Cons_shorter [OF Cons]
    show ?thesis
    proof (cases "json_string s1")
      case None
      with Cons show ?thesis
        by (simp only: json_members.simps(2) [of "Suc n" s] json_members.simps(2) [of n s]
            list.case option.case)
    next
      case (Some r)
      obtain k s2 where r: "r = (k, s2)" by (cases r)
      note l1 = json_string_shorter [OF Some [unfolded r]]
      show ?thesis
      proof (cases "dropWhile json_ws s2")
        case Nil
        with Cons Some r show ?thesis
          by (simp only: json_members.simps(2) [of "Suc n" s] json_members.simps(2) [of n s]
              list.case option.case prod.case)
      next
        case colon: (Cons col s3)
        note l2 = dropWhile_Cons_shorter [OF colon]
        from l0 l1 l2 b have "2 * length s3 + 1 \<le> n" by simp
        then have v: "json_value (Suc n) s3 = json_value n s3" by (rule V)
        show ?thesis
        proof (cases "json_value n s3")
          case None
          with Cons Some r colon v show ?thesis
            by (simp only: json_members.simps(2) [of "Suc n" s] json_members.simps(2) [of n s]
                list.case option.case prod.case)
        next
          case val: (Some r')
          obtain x s4 where r': "r' = (x, s4)" by (cases r')
          note l3 = json_value_shorter [OF val [unfolded r']]
          show ?thesis
          proof (cases "dropWhile json_ws s4")
            case Nil
            with Cons Some r colon v val r' show ?thesis
              by (simp only: json_members.simps(2) [of "Suc n" s]
                  json_members.simps(2) [of n s] list.case option.case prod.case)
          next
            case rest: (Cons c cs)
            from dropWhile_Cons_shorter [OF rest] l0 l1 l2 l3 b
            have "2 * length cs + 2 \<le> n" by simp
            then have "json_members (Suc n) cs = json_members n cs" by (rule M)
            with Cons Some r colon v val r' rest show ?thesis
              by (simp only: json_members.simps(2) [of "Suc n" s]
                  json_members.simps(2) [of n s] list.case option.case prod.case)
          qed
        qed
      qed
    qed
  qed
  from vl el ml show ?case by blast
qed

lemma json_value_fuel:
  assumes "2 * length s + 2 \<le> n"
  shows "json_value n s = json_value (2 * length s + 2) s"
  using assms
proof (induction n rule: dec_induct)
  case base
  show ?case by simp
next
  case (step n)
  from step.hyps(1) have "2 * length s + 1 \<le> n" by simp
  with json_fuel_aux [of n] have "json_value (Suc n) s = json_value n s" by blast
  with step.IH show ?case by simp
qed


lemma JSON_parse_fuel:
  assumes "2 * length s + 2 \<le> n"
  shows "JSON_parse s =
     (case json_value n s of
        None \<Rightarrow> Inl SyntaxError
      | Some (v, t) \<Rightarrow> if dropWhile json_ws t = [] then Inr v else Inl SyntaxError)"
  by (simp only: JSON_parse_def json_value_fuel [OF assms])

section \<open>Properties of chart mounting\<close>

lemma mount_canvas_canvas_of: "canvas_of (mount_canvas querySelector st c) = canvas_of st"
  by (simp add: mount_canvas_def Let_def split: sum.splits)

lemma mount_canvas_mono:
  "set (constructed st) \<subseteq> set (constructed (mount_canvas querySelector st c))
   \<and> set (console st) \<subseteq> set (console (mount_canvas querySelector st c))"
  by (auto simp: mount_canvas_def Let_def split: sum.splits)

lemma foldl_mount_canvas_of:
  "canvas_of (foldl (mount_canvas querySelector) st cs) = canvas_of st"
  by (induction cs arbitrary: st) (simp_all add: mount_canvas_canvas_of)

lemma foldl_mount_mono:
  "set (constructed st) \<subseteq> set (constructed (foldl (mount_canvas querySelector) st cs))
   \<and> set (console st) \<subseteq> set (console (foldl (mount_canvas querySelector) st cs))"
proof (induction cs arbitrary: st)
  case Nil
  then show ?case by simp
next
  case (Cons c cs)
  from Cons.IH [of "mount_canvas querySelector st c"] mount_canvas_mono [of st querySelector c]
  show ?case by auto
qed

lemma read_config_fails:
  assumes "cfgAttr = Some a" and "a \<noteq> []"
    and "(prefix ''{'' (trim a) \<and> JSON_parse a = Inl e)
         \<or> (\<not> prefix ''{'' (trim a) \<and> querySelector a = Inr (Some txt)
             \<and> JSON_parse txt = Inl e)"
  shows "read_config querySelector cfgAttr = Inl e"
  using assms by (auto simp: read_config_def)

lemma mount_canvas_fails:
  assumes "read_config querySelector (chart_config (canvas_of st c)) = Inl e"
  shows "mount_canvas querySelector st c =
           st\<lparr>console := console st @ [Warn_parse_failed c],
              constructed := constructed st @ [(c, default_cfg)]\<rparr>"
  using assms by (simp add: mount_canvas_def)

lemma foldl_mount_fails:
  assumes "c \<in> set cs"
    and "read_config querySelector (chart_config (canvas_of st c)) = Inl e"
  shows "(c, default_cfg) \<in> set (constructed (foldl (mount_canvas querySelector) st cs))
       \<and> Warn_parse_failed c \<in> set (console (foldl (mount_canvas querySelector) st cs))"
  using assms
proof (induction cs arbitrary: st)
  case Nil
  then show ?case by simp
next
  case (Cons d cs)
  show ?case
  proof (cases "c = d")
    case True
    from Cons.prems(2) True
    have "(c, default_cfg) \<in> set (constructed (mount_canvas querySelector st d))
        \<and> Warn_parse_failed c \<in> set (console (mount_canvas querySelector st d))"
      by (simp add: mount_canvas_fails)
    with foldl_mount_mono [of "mount_canvas querySelector st d" querySelector cs]
    show ?thesis by auto
  next
    case False
    with Cons.prems(1) have "c \<in> set cs" by simp
    moreover from Cons.prems(2)
    have "read_config querySelector
        (chart_config (canvas_of (mount_canvas querySelector st d) c)) = Inl e"
      by (simp add: mount_canvas_canvas_of)
    ultimately show ?thesis using Cons.IH by simp
  qed
qed

text \<open>
  C4 as amended. When the charting library is present and the configuration of a canvas
  fails to parse as JSON (the inline text, or the text of the element the attribute
  selects), the failure is logged as a warning, no canvas is marked (the class lists stay
  as they are, without \<^verbatim>\<open>skeleton\<close>) and a chart is constructed on that canvas
  with the built-in default line-chart configuration.
\<close>

theorem failed_config_default_chart:
  assumes "c \<in> set canvases"
    and "chart_config (canvas_of st c) = Some a" and "a \<noteq> []"
    and "(prefix ''{'' (trim a) \<and> JSON_parse a = Inl e)
         \<or> (\<not> prefix ''{'' (trim a) \<and> querySelector a = Inr (Some txt)
             \<and> JSON_parse txt = Inl e)"
  shows "canvas_of (mountCharts True querySelector canvases st) = canvas_of st
       \<and> (c, default_cfg) \<in> set (constructed (mountCharts True querySelector canvases st))
       \<and> Warn_parse_failed c \<in> set (console (mountCharts True querySelector canvases st))"
proof -
  have "read_config querySelector (chart_config (canvas_of st c)) = Inl e"
    using assms(2-4) by (rule read_config_fails)
  from foldl_mount_fails [OF assms(1) this] assms(1) show ?thesis
    by (auto simp: mountCharts_def foldl_mount_canvas_of)
qed

theorem failed_config_default_chart_witness:
  "(0::nat) \<in> set [0]
   \<and> chart_config (canvas_of example_charts 0) = Some ''{type: line}''
   \<and> prefix ''{'' (trim ''{type: line}'')
   \<and> JSON_parse ''{type: line}'' = Inl SyntaxError
   \<and> canvas_of (mountCharts True no_selector [0] example_charts) = canvas_of example_charts
   \<and> (0, default_cfg) \<in> set (constructed (mountCharts True no_selector [0] example_charts))
   \<and> Warn_parse_failed 0 \<in> set (console (mountCharts True no_selector [0] example_charts))"
proof -
  have a: "(0::nat) \<in> set [0]" by simp
  have b: "chart_config (canvas_of example_charts 0) = Some ''{type: line}''"
    by (simp add: example_charts_def)
  have c: "''{type: line}'' \<noteq> []" by simp
  have p: "prefix ''{'' (trim ''{type: line}'')" by code_simp
  have j: "JSON_parse ''{type: line}'' = Inl SyntaxError" by code_simp
  from p j have d: "(prefix ''{'' (trim ''{type: line}'')
        \<and> JSON_parse ''{type: line}'' = Inl SyntaxError)
      \<or> (\<not> prefix ''{'' (trim ''{type: line}'') \<and> no_selector ''{type: line}'' = Inr (Some [])
          \<and> JSON_parse [] = Inl SyntaxError)" by blast
  from failed_config_default_chart [of 0 "[0]" example_charts "''{type: line}''"
      SyntaxError no_selector "[]", OF a b c d] a b p j
  show ?thesis by blast
qed

text \<open>
  C4 as stated fails. With the charting library present and one canvas whose inline
  configuration \<^verbatim>\<open>{type: line}\<close> is not JSON, the canvas keeps its single class
  \<^verbatim>\<open>chart-canvas\<close> (no placeholder mark), and a chart is constructed on it with the
  default configuration.
\<close>

theorem parse_failure_counterexample:
  "JSON_parse ''{type: line}'' = Inl SyntaxError
   \<and> canvas_classes (canvas_of (mountCharts True no_selector [0] example_charts) 0)
       = [''chart-canvas'']
   \<and> constructed (mountCharts True no_selector [0] example_charts) = [(0, default_cfg)]
   \<and> console (mountCharts True no_selector [0] example_charts) = [Warn_parse_failed 0]"
  by code_simp

end
